theory Spec2Isabelle
  imports Complex_Main "HOL-Library.Sublist" "HOL-Library.Log_Nat" "HOL-Library.AList"
begin

section \<open>Strings\<close>

text \<open>
  A JavaScript string is modelled as a \<^typ>\<open>string\<close>: each \<^typ>\<open>char\<close> stands for
  one code unit, so \<^const>\<open>length\<close> is the \<^verbatim>\<open>.length\<close> property,
  \<^verbatim>\<open>s.slice(0, n)\<close> is \<^term>\<open>take n s\<close> and \<^verbatim>\<open>s.slice(-n)\<close> is
  \<^term>\<open>drop (length s - n) s\<close>. A \<^typ>\<open>char\<close> has 256 values: the strings of the model are
  those whose code units are below 256 (the characters U+0000 to U+00FF), each character
  being the code unit of its number.
\<close>

text \<open>\<^verbatim>\<open>hay.includes(needle)\<close>: the needle occurs as a contiguous run of the haystack.\<close>

fun str_includes :: "string \<Rightarrow> string \<Rightarrow> bool" where
  "str_includes [] needle = (needle = [])"
| "str_includes (c # cs) needle = (prefix needle (c # cs) \<or> str_includes cs needle)"

section \<open>Security utilities\<close>

text \<open>
  \<^verbatim>\<open>maskAccountNumber\<close>: the guard \<^verbatim>\<open>!accountNumber || accountNumber.length <= 4\<close>
  returns the argument itself; otherwise at most four asterisks are put before the last four
  characters. The subtraction is only evaluated when the length exceeds 4.
\<close>

definition maskAccountNumber :: "string \<Rightarrow> string" where
  "maskAccountNumber accountNumber =
     (if accountNumber = [] \<or> length accountNumber \<le> 4 then accountNumber
      else let lastFour = drop (length accountNumber - 4) accountNumber;
               maskLength = min (length accountNumber - 4) 4
           in replicate maskLength (CHR ''*'') @ lastFour)"

text \<open>
  \<^verbatim>\<open>sanitizeApiKey\<close>: an empty key gives the placeholder, a key of at most eight
  characters is returned as it is ("too short to sanitize"), a longer key is cut after eight
  characters and three dots are appended.
\<close>

definition sanitizeApiKey :: "string \<Rightarrow> string" where
  "sanitizeApiKey apiKey =
     (if apiKey = [] then ''[missing]''
      else if length apiKey \<le> 8 then apiKey
      else take 8 apiKey @ ''...'')"

section \<open>JavaScript values\<close>

text \<open>
  A JavaScript number is an IEEE 754 binary64 value: a finite value (a rational; negative
  zero is identified with zero), \<^verbatim>\<open>NaN\<close> or one of the two infinities.
\<close>

datatype js_number = Num rat | NaN | PosInfinity | NegInfinity

text \<open>
  The values that flow through the utilities: primitives, arrays and plain objects. An object
  is the list of its own enumerable entries in insertion order, as \<^verbatim>\<open>Object.entries\<close>
  yields them; an object with another prototype than a plain one (a \<^verbatim>\<open>Date\<close>, a class
  instance) is not a value of the model. An object can have an own property named
  \<^verbatim>\<open>__proto__\<close> (\<^verbatim>\<open>JSON.parse\<close> creates one). An assignment
  \<^verbatim>\<open>obj['__proto__'] = v\<close> to an object literal is another matter: it is an access to the
  prototype and creates no own property, whatever \<open>v\<close> is. Only own properties are modelled.
\<close>

datatype js_value =
    Undefined
  | Null
  | Boolean bool
  | Number js_number
  | Str string
  | Arr "js_value list"
  | Obj "(string \<times> js_value) list"

text \<open>Reading an own property: the value of the entry, \<^verbatim>\<open>undefined\<close> when there is none.\<close>

fun js_get :: "(string \<times> js_value) list \<Rightarrow> string \<Rightarrow> js_value" where
  "js_get [] key = Undefined"
| "js_get ((k, v) # rest) key = (if k = key then v else js_get rest key)"

section \<open>API client\<close>

text \<open>
  What a \<^verbatim>\<open>catch\<close> clause can receive: an \<^verbatim>\<open>ApiClientError\<close> with its message and
  its optional status code, code and details; an instance of another \<^verbatim>\<open>Error\<close> class with
  its name, its message and a status code when the class has one (as \<^verbatim>\<open>MercuryAPIError\<close>
  of \<^verbatim>\<open>utils/errors.ts\<close> has); or a thrown value that is not an \<^verbatim>\<open>Error\<close> at all.
\<close>

datatype thrown =
    ApiClientError string "int option" "string option" js_value
  | OtherError string string "int option"
  | NonError js_value



text \<open>
  The tagged envelope \<^verbatim>\<open>ApiResponse<T>\<close> of \<^verbatim>\<open>types/api.ts\<close>: either
  \<^verbatim>\<open>{ success: true, data }\<close> or \<^verbatim>\<open>{ success: false, error: { message, code, details? } }\<close>
  (absent details are \<^const>\<open>Undefined\<close>).
\<close>

datatype 'a ApiResponse =
    ApiSuccess 'a
  | ApiFailure string string js_value

text \<open>
  A \<^verbatim>\<open>Response\<close>: its status and what \<^verbatim>\<open>response.json()\<close> gives, which
  \<^verbatim>\<open>apiRequest\<close> declares as an \<^verbatim>\<open>ApiResponse<T>\<close>; \<^const>\<open>None\<close> when the body is
  not valid JSON and \<^verbatim>\<open>json()\<close> rejects.
\<close>

record 'a response =
  status :: int
  json :: "'a ApiResponse option"

text \<open>
  \<^verbatim>\<open>fetchWithTimeout\<close>: the fetch either rejects with a thrown value or resolves to a
  response. An abort (the timer fired) becomes an \<^verbatim>\<open>ApiClientError\<close> with status 408;
  anything else is rethrown.
\<close>

definition fetchWithTimeout :: "thrown + 'a response \<Rightarrow> thrown + 'a response" where
  "fetchWithTimeout fetched =
     (case fetched of
        Inr resp \<Rightarrow> Inr resp
      | Inl (OtherError name msg sc) \<Rightarrow>
          (if name = ''AbortError''
           then Inl (ApiClientError ''Request timeout'' (Some 408) (Some ''TIMEOUT'') Undefined)
           else Inl (OtherError name msg sc))
      | Inl err \<Rightarrow> Inl err)"

text \<open>
  The part of \<^verbatim>\<open>apiRequest\<close> after the request is made: parse the body, throw on a
  body that is not JSON, throw on a failure envelope (an empty message is replaced by
  \<^verbatim>\<open>'API error'\<close>), return the data of a success envelope.
\<close>

definition handle_response :: "'a response \<Rightarrow> thrown + 'a" where
  "handle_response resp =
     (case json resp of
        None \<Rightarrow>
          Inl (ApiClientError ''Invalid JSON response'' (Some (status resp))
                 (Some ''INVALID_RESPONSE'') Undefined)
      | Some (ApiFailure msg code details) \<Rightarrow>
          Inl (ApiClientError (if msg = [] then ''API error'' else msg) (Some (status resp))
                 (Some code) details)
      | Some (ApiSuccess data) \<Rightarrow> Inr data)"

text \<open>
  \<^verbatim>\<open>apiRequest\<close>, from the outcome of the fetch on: an \<^verbatim>\<open>ApiClientError\<close> of the
  fetch is rethrown, any other failure becomes a network error with status 0.
\<close>

definition apiRequest :: "thrown + 'a response \<Rightarrow> thrown + 'a" where
  "apiRequest fetched =
     (case fetchWithTimeout fetched of
        Inl (ApiClientError m sc c d) \<Rightarrow> Inl (ApiClientError m sc c d)
      | Inl (OtherError name msg sc) \<Rightarrow>
          Inl (ApiClientError msg (Some 0) (Some ''NETWORK_ERROR'') Undefined)
      | Inl (NonError v) \<Rightarrow>
          Inl (ApiClientError ''Network error'' (Some 0) (Some ''NETWORK_ERROR'') Undefined)
      | Inr resp \<Rightarrow> handle_response resp)"






definition default_baseDelay :: int where
  "default_baseDelay = 1000"



section \<open>Sanitizing objects for logs\<close>








section \<open>Numbers\<close>

text \<open>The comparison \<^verbatim>\<open>a < b\<close> of two numbers; it is false when either is \<^verbatim>\<open>NaN\<close>.\<close>

fun js_less :: "js_number \<Rightarrow> js_number \<Rightarrow> bool" where
  "js_less (Num a) (Num b) = (a < b)"
| "js_less (Num a) PosInfinity = True"
| "js_less NegInfinity (Num b) = True"
| "js_less NegInfinity PosInfinity = True"
| "js_less a b = False"

text \<open>\<^verbatim>\<open>Number.isInteger\<close> and \<^verbatim>\<open>Number.isFinite\<close>.\<close>

fun isInteger :: "js_number \<Rightarrow> bool" where
  "isInteger (Num q) = (of_int \<lfloor>q\<rfloor> = q)"
| "isInteger n = False"

fun isFinite :: "js_number \<Rightarrow> bool" where
  "isFinite (Num q) = True"
| "isFinite n = False"

text \<open>Decimal digits of a natural number and of an integer, as string conversion gives them.\<close>

fun string_of_nat :: "nat \<Rightarrow> string" where
  "string_of_nat n =
     (if n < 10 then [''0123456789'' ! n]
      else string_of_nat (n div 10) @ [''0123456789'' ! (n mod 10)])"

declare string_of_nat.simps [simp del]

definition string_of_int :: "int \<Rightarrow> string" where
  "string_of_int i = (if i < 0 then CHR ''-'' # string_of_nat (nat (- i)) else string_of_nat (nat i))"

section \<open>Validation with Zod\<close>

text \<open>
  The schemas of the validation module are built with the Zod library (version 3, whose
  errors have the \<^verbatim>\<open>errors\<close> list that \<^verbatim>\<open>formatValidationError\<close> reads). The library is
  not part of the repository; the combinators used by the schemas are modelled here by what
  the library does for them. A schema parses a value at a path and gives either the issues it
  found or the parsed value.
\<close>

datatype path_elem = Key string | Index nat

datatype ZodIssue = ZodIssue (path: "path_elem list") (message: string)


type_synonym zod_schema = "path_elem list \<Rightarrow> js_value \<Rightarrow> ZodIssue list + js_value"

definition issues_of :: "ZodIssue list + js_value \<Rightarrow> ZodIssue list" where
  "issues_of r = (case r of Inl issues \<Rightarrow> issues | Inr v \<Rightarrow> [])"

text \<open>The type names of the library's \<^verbatim>\<open>getParsedType\<close>.\<close>

fun parsedType :: "js_value \<Rightarrow> string" where
  "parsedType Undefined = ''undefined''"
| "parsedType Null = ''null''"
| "parsedType (Boolean b) = ''boolean''"
| "parsedType (Number NaN) = ''nan''"
| "parsedType (Number n) = ''number''"
| "parsedType (Str s) = ''string''"
| "parsedType (Arr xs) = ''array''"
| "parsedType (Obj entries) = ''object''"

definition invalid_type :: "path_elem list \<Rightarrow> string \<Rightarrow> js_value \<Rightarrow> ZodIssue" where
  "invalid_type p expected v =
     ZodIssue p (if v = Undefined then ''Required''
                 else ''Expected '' @ expected @ '', received '' @ parsedType v)"

text \<open>
  \<^verbatim>\<open>z.number()\<close> with its checks \<^verbatim>\<open>.int()\<close>, \<^verbatim>\<open>.finite()\<close>, \<^verbatim>\<open>.min(m)\<close> and
  \<^verbatim>\<open>.max(m)\<close>. A value that is not a number, \<^verbatim>\<open>NaN\<close> included, is rejected at once;
  otherwise every check is run and every failed check adds an issue.
\<close>

datatype number_check = IsInt | IsFinite | Min int | Max int

fun number_issue :: "number_check \<Rightarrow> js_number \<Rightarrow> string option" where
  "number_issue IsInt n =
     (if isInteger n then None else Some ''Expected integer, received float'')"
| "number_issue IsFinite n =
     (if isFinite n then None else Some ''Number must be finite'')"
| "number_issue (Min m) n =
     (if js_less n (Num (of_int m))
      then Some (''Number must be greater than or equal to '' @ string_of_int m) else None)"
| "number_issue (Max m) n =
     (if js_less (Num (of_int m)) n
      then Some (''Number must be less than or equal to '' @ string_of_int m) else None)"

definition z_number :: "number_check list \<Rightarrow> zod_schema" where
  "z_number checks p v =
     (case v of
        Number n \<Rightarrow>
          (if n = NaN then Inl [invalid_type p ''number'' v]
           else (case List.map_filter (\<lambda>c. map_option (ZodIssue p) (number_issue c n)) checks of
                   [] \<Rightarrow> Inr v
                 | issues \<Rightarrow> Inl issues))
      | _ \<Rightarrow> Inl [invalid_type p ''number'' v])"

text \<open>
  \<^verbatim>\<open>z.string()\<close> with its checks \<^verbatim>\<open>.min(n)\<close>, \<^verbatim>\<open>.max(n)\<close> and
  \<^verbatim>\<open>.regex(re, message)\<close>; a regular expression is given by the set of strings it matches.
\<close>

datatype string_check = MinLength nat | MaxLength nat | Regex "string \<Rightarrow> bool" string

fun string_issue :: "string_check \<Rightarrow> string \<Rightarrow> string option" where
  "string_issue (MinLength n) s =
     (if length s < n
      then Some (''String must contain at least '' @ string_of_nat n @ '' character(s)'')
      else None)"
| "string_issue (MaxLength n) s =
     (if n < length s
      then Some (''String must contain at most '' @ string_of_nat n @ '' character(s)'')
      else None)"
| "string_issue (Regex matches msg) s = (if matches s then None else Some msg)"

definition z_string :: "string_check list \<Rightarrow> zod_schema" where
  "z_string checks p v =
     (case v of
        Str s \<Rightarrow>
          (case List.map_filter (\<lambda>c. map_option (ZodIssue p) (string_issue c s)) checks of
             [] \<Rightarrow> Inr v
           | issues \<Rightarrow> Inl issues)
      | _ \<Rightarrow> Inl [invalid_type p ''string'' v])"

text \<open>\<^verbatim>\<open>.optional()\<close> accepts \<^verbatim>\<open>undefined\<close>; \<^verbatim>\<open>.default(d)\<close> parses \<open>d\<close> in its place.\<close>

definition z_optional :: "zod_schema \<Rightarrow> zod_schema" where
  "z_optional inner p v = (if v = Undefined then Inr Undefined else inner p v)"

definition z_default :: "zod_schema \<Rightarrow> js_value \<Rightarrow> zod_schema" where
  "z_default inner d p v = inner p (if v = Undefined then d else v)"

text \<open>
  \<^verbatim>\<open>z.object(shape)\<close>: the input must be an object; every key of the shape is parsed, at
  the path extended by the key, from the property read off the input; keys outside the shape
  are dropped. All issues are collected. A parsed property is put into the output when it is
  defined or its key was present in the input.
\<close>

fun parse_fields ::
  "(string \<times> zod_schema) list \<Rightarrow> path_elem list \<Rightarrow> (string \<times> js_value) list
   \<Rightarrow> ZodIssue list \<times> (string \<times> js_value) list" where
  "parse_fields [] p entries = ([], [])"
| "parse_fields ((k, s) # shape) p entries =
     (let (issues, out) = parse_fields shape p entries
      in case s (p @ [Key k]) (js_get entries k) of
           Inl found \<Rightarrow> (found @ issues, out)
         | Inr v \<Rightarrow>
             (issues,
              if k \<noteq> ''__proto__'' \<and> (v \<noteq> Undefined \<or> k \<in> fst ` set entries)
              then (k, v) # out else out))"

definition z_object :: "(string \<times> zod_schema) list \<Rightarrow> zod_schema" where
  "z_object shape p v =
     (case v of
        Obj entries \<Rightarrow>
          (case parse_fields shape p entries of
             ([], out) \<Rightarrow> Inr (Obj out)
           | (issues, out) \<Rightarrow> Inl issues)
      | _ \<Rightarrow> Inl [invalid_type p ''object'' v])"


section \<open>Validation schemas\<close>

definition is_lower :: "char \<Rightarrow> bool" where
  "is_lower c = (c \<in> set ''abcdefghijklmnopqrstuvwxyz'')"

definition is_digit :: "char \<Rightarrow> bool" where
  "is_digit c = (c \<in> set ''0123456789'')"

text \<open>The regular expression \<^verbatim>\<open>/^[a-z][a-z0-9-]*$/\<close>.\<close>

fun entity_id_regex :: "string \<Rightarrow> bool" where
  "entity_id_regex [] = False"
| "entity_id_regex (c # cs) =
     (is_lower c \<and> list_all (\<lambda>x. is_lower x \<or> is_digit x \<or> x = CHR ''-'') cs)"

text \<open>The regular expression \<^verbatim>\<open>/^\d{4}-\d{2}-\d{2}$/\<close>.\<close>

fun date_regex :: "string \<Rightarrow> bool" where
  "date_regex [y1, y2, y3, y4, d1, m1, m2, d2, t1, t2] =
     (is_digit y1 \<and> is_digit y2 \<and> is_digit y3 \<and> is_digit y4 \<and> d1 = CHR ''-''
      \<and> is_digit m1 \<and> is_digit m2 \<and> d2 = CHR ''-'' \<and> is_digit t1 \<and> is_digit t2)"
| "date_regex s = False"

definition EntityIdSchema :: zod_schema where
  "EntityIdSchema =
     z_string [MinLength 1, MaxLength 50,
       Regex entity_id_regex ''Entity ID must be lowercase letters, numbers, and dashes only'']"

definition DateSchema :: zod_schema where
  "DateSchema = z_string [Regex date_regex ''Invalid'']"

definition CentsSchema :: zod_schema where
  "CentsSchema = z_number [IsInt, IsFinite]"

definition TransactionQuery_shape :: "(string \<times> zod_schema) list" where
  "TransactionQuery_shape =
     [(''entityId'', z_optional EntityIdSchema),
      (''accountId'', z_optional (z_string [])),
      (''startDate'', z_optional DateSchema),
      (''endDate'', z_optional DateSchema),
      (''minAmount'', z_optional CentsSchema),
      (''maxAmount'', z_optional CentsSchema),
      (''search'', z_optional (z_string [MaxLength 200])),
      (''limit'', z_default (z_optional (z_number [IsInt, Min 1, Max 1000]))
                    (Number (Num 100))),
      (''offset'', z_default (z_optional (z_number [IsInt, Min 0])) (Number (Num 0)))]"

definition TransactionQuerySchema :: zod_schema where
  "TransactionQuerySchema = z_object TransactionQuery_shape"










text \<open>A schema is path-local when every issue it reports carries the path it was given.\<close>

definition path_local :: "zod_schema \<Rightarrow> bool" where
  "path_local s \<longleftrightarrow> (\<forall>p v. \<forall>i \<in> set (issues_of (s p v)). path i = p)"




text \<open>A schema that fails reports at least one issue.\<close>

definition reports_issues :: "zod_schema \<Rightarrow> bool" where
  "reports_issues s \<longleftrightarrow> (\<forall>p v. s p v \<noteq> Inl [])"

section \<open>Floating-point arithmetic\<close>

text \<open>
  The arithmetic operators of JavaScript compute the exact result of the operation on the two
  binary64 operands and round it to the nearest binary64 value, ties going to the value with
  an even significand. The rounding is written out on the rationals. The operands are taken
  to be binary64 values, as every integer of magnitude up to \<open>2 ^ 53\<close> is.

  The binary exponent of a non-zero rational \<open>x\<close>: the integer \<open>e\<close> with
  \<open>2 ^ e \<le> \<bar>x\<bar> < 2 ^ (e + 1)\<close>. The bit lengths of numerator and denominator give it up
  to one.
\<close>

definition ilog2 :: "rat \<Rightarrow> int" where
  "ilog2 x =
     (let (a, b) = quotient_of \<bar>x\<bar>;
          d = bitlen a - bitlen b
      in if 2 powi d \<le> \<bar>x\<bar> then d else d - 1)"

text \<open>Rounding to the nearest integer, a tie going to the even one.\<close>

definition round_half_even :: "rat \<Rightarrow> int" where
  "round_half_even x =
     (let f = \<lfloor>x\<rfloor>; d = x - of_int f
      in if d < 1 / 2 then f
         else if 1 / 2 < d then f + 1
         else if even f then f else f + 1)"

text \<open>
  Rounding a rational to binary64: the significand has 53 bits, so a value with binary
  exponent \<open>e\<close> is rounded to a multiple of \<open>2 ^ (e - 52)\<close>, and to a multiple of
  \<open>2 ^ (- 1074)\<close> in the subnormal range; a result of magnitude \<open>2 ^ 1024\<close> or more
  overflows to an infinity.
\<close>

definition to_double :: "rat \<Rightarrow> js_number" where
  "to_double x =
     (if x = 0 then Num 0
      else let e = ilog2 x;
               u = 2 powi (max (e - 52) (- 1074));
               y = of_int (round_half_even (x / u)) * u
           in if 2 powi 1024 \<le> \<bar>y\<bar> then (if 0 < x then PosInfinity else NegInfinity)
              else Num y)"

text \<open>Subtraction, multiplication, division, \<^verbatim>\<open>Math.abs\<close> and \<^verbatim>\<open>Math.round\<close>.\<close>

fun js_sub :: "js_number \<Rightarrow> js_number \<Rightarrow> js_number" where
  "js_sub (Num a) (Num b) = to_double (a - b)"
| "js_sub NaN y = NaN"
| "js_sub x NaN = NaN"
| "js_sub PosInfinity PosInfinity = NaN"
| "js_sub NegInfinity NegInfinity = NaN"
| "js_sub PosInfinity y = PosInfinity"
| "js_sub NegInfinity y = NegInfinity"
| "js_sub x PosInfinity = NegInfinity"
| "js_sub x NegInfinity = PosInfinity"

fun js_mul :: "js_number \<Rightarrow> js_number \<Rightarrow> js_number" where
  "js_mul (Num a) (Num b) = to_double (a * b)"
| "js_mul NaN y = NaN"
| "js_mul x NaN = NaN"
| "js_mul x y =
     (if x = Num 0 \<or> y = Num 0 then NaN
      else if js_less x (Num 0) = js_less y (Num 0) then PosInfinity else NegInfinity)"

fun js_div :: "js_number \<Rightarrow> js_number \<Rightarrow> js_number" where
  "js_div (Num a) (Num b) =
     (if b = 0 then (if a = 0 then NaN else if 0 < a then PosInfinity else NegInfinity)
      else to_double (a / b))"
| "js_div NaN y = NaN"
| "js_div x NaN = NaN"
| "js_div (Num a) y = Num 0"
| "js_div x (Num b) =
     (if js_less x (Num 0) = (b < 0) then PosInfinity else NegInfinity)"
| "js_div x y = NaN"

fun js_abs :: "js_number \<Rightarrow> js_number" where
  "js_abs (Num a) = Num \<bar>a\<bar>"
| "js_abs NaN = NaN"
| "js_abs x = PosInfinity"

fun Math_round :: "js_number \<Rightarrow> js_number" where
  "Math_round (Num a) = Num (of_int \<lfloor>a + 1 / 2\<rfloor>)"
| "Math_round x = x"

text \<open>Strict equality of numbers: \<^verbatim>\<open>NaN\<close> is equal to nothing.\<close>

definition js_strict_eq :: "js_number \<Rightarrow> js_number \<Rightarrow> bool" where
  "js_strict_eq x y \<longleftrightarrow> x \<noteq> NaN \<and> y \<noteq> NaN \<and> x = y"

section \<open>Currency utilities\<close>

text \<open>
  \<^verbatim>\<open>calculatePercentageChange\<close>: the guard \<^verbatim>\<open>previous === 0\<close> returns
  \<^verbatim>\<open>current > 0 ? 1 : 0\<close>; otherwise the difference is divided by \<^verbatim>\<open>Math.abs(previous)\<close>.
  \<^verbatim>\<open>dollarsToCents\<close> is \<^verbatim>\<open>Math.round(dollars * 100)\<close> and \<^verbatim>\<open>centsToDollars\<close> is
  \<^verbatim>\<open>cents / 100\<close>.
\<close>

definition calculatePercentageChange :: "js_number \<Rightarrow> js_number \<Rightarrow> js_number" where
  "calculatePercentageChange current previous =
     (if js_strict_eq previous (Num 0) then (if js_less (Num 0) current then Num 1 else Num 0)
      else js_div (js_sub current previous) (js_abs previous))"

definition dollarsToCents :: "js_number \<Rightarrow> js_number" where
  "dollarsToCents dollars = Math_round (js_mul dollars (Num 100))"

definition centsToDollars :: "js_number \<Rightarrow> js_number" where
  "centsToDollars cents = js_div cents (Num 100)"

section \<open>Facts about strings\<close>

lemma str_includes_iff_sublist: "str_includes hay needle \<longleftrightarrow> sublist needle hay"
  by (induction hay) (simp_all add: sublist_Cons_right)

section \<open>Masking of API keys\<close>

lemma sanitizeApiKey_long: "8 < length t \<Longrightarrow> sanitizeApiKey t = take 8 t @ ''...''"
  by (auto simp: sanitizeApiKey_def)

lemma dots_tail_sublist:
  assumes len: "8 < length t" "length t \<le> 11"
    and dots: "set (drop 8 t) \<subseteq> {CHR ''.''}"
  shows "sublist t (take 8 t @ ''...'')"
proof -
  let ?k = "length t - 8"
  have d: "drop 8 t = replicate ?k (CHR ''.'')"
    using dots by (intro replicate_eqI) auto
  have "''...'' = replicate ?k (CHR ''.'') @ replicate (3 - ?k) (CHR ''.'')"
    using len by (simp add: replicate_add [symmetric] numeral_3_eq_3)
  then have "take 8 t @ ''...'' = (take 8 t @ drop 8 t) @ replicate (3 - ?k) (CHR ''.'')"
    using d by simp
  then have "prefix t (take 8 t @ ''...'')"
    by (simp add: prefix_def del: append_assoc)
  then show ?thesis by (rule prefix_imp_sublist)
qed

lemma sublist_dots_tail:
  assumes len: "8 < length t" and sub: "sublist t (take 8 t @ ''...'')"
  shows "length t \<le> 11 \<and> set (drop 8 t) \<subseteq> {CHR ''.''}"
proof -
  let ?r = "take 8 t @ ''...''"
  from sub obtain ps ss where r: "?r = ps @ t @ ss"
    by (auto simp: sublist_def)
  have "length ?r = 11" using len by simp
  then have l: "length ps + length t + length ss = 11"
    using r by (metis length_append add.assoc)
  have "x = CHR ''.''" if "x \<in> set (drop 8 t)" for x
  proof -
    from that obtain j where j: "j < length t - 8" "x = t ! (8 + j)"
      by (auto simp: in_set_conv_nth)
    have jt: "8 + j < length t" using j by simp
    have "(ps @ t @ ss) ! (length ps + (8 + j)) = t ! (8 + j)"
      using jt by (simp add: nth_append)
    then have "?r ! (length ps + (8 + j)) = t ! (8 + j)"
      using r by simp
    moreover have "length ps + (8 + j) < 11" using j l by simp
    then have "?r ! (length ps + (8 + j)) = CHR ''.''"
      using len by (auto simp: nth_append less_Suc_eq numeral_3_eq_3 nth_Cons')
    ultimately show ?thesis using j by simp
  qed
  then show ?thesis using l by auto
qed

text \<open>
  Claim C1, as stated: every token is masked to its first eight characters followed by an
  ellipsis, and the full token never occurs in the masked result. The key \<open>short\<close> has at
  most eight characters, so it falls under the "too short to sanitize" guard and comes back
  whole: the result is not the eight-character form and it contains the full token.
\<close>

theorem sanitizeApiKey_short_counterexample:
  "sanitizeApiKey ''short'' \<noteq> take 8 ''short'' @ ''...''
   \<and> str_includes (sanitizeApiKey ''short'') ''short''"
  by (simp add: sanitizeApiKey_def)

text \<open>
  Claim C1, amended: for every token of more than eight characters, the masked form is the
  token's first eight characters followed by three dots; the full token occurs in the masked
  form only in the degenerate case where the token has at most eleven characters and
  everything after its eighth character is a dot (the token is then a prefix of its own
  masked form). A token of one to eight characters is returned unchanged and the empty token
  gives \<open>[missing]\<close>.
\<close>

theorem sanitizeApiKey_masks_long:
  "(8 < length t \<longrightarrow>
      sanitizeApiKey t = take 8 t @ ''...''
      \<and> (str_includes (sanitizeApiKey t) t
           \<longleftrightarrow> length t \<le> 11 \<and> set (drop 8 t) \<subseteq> {CHR ''.''}))
   \<and> (t \<noteq> [] \<and> length t \<le> 8 \<longrightarrow> sanitizeApiKey t = t)
   \<and> (t = [] \<longrightarrow> sanitizeApiKey t = ''[missing]'')"
proof (intro conjI impI)
  assume long: "8 < length t"
  then show "sanitizeApiKey t = take 8 t @ ''...''" by (rule sanitizeApiKey_long)
  show "str_includes (sanitizeApiKey t) t
      \<longleftrightarrow> length t \<le> 11 \<and> set (drop 8 t) \<subseteq> {CHR ''.''}"
    using long dots_tail_sublist [of t] sublist_dots_tail [of t]
    by (auto simp only: sanitizeApiKey_long str_includes_iff_sublist)
next
  assume "t \<noteq> [] \<and> length t \<le> 8"
  then show "sanitizeApiKey t = t" by (simp add: sanitizeApiKey_def)
next
  assume "t = []"
  then show "sanitizeApiKey t = ''[missing]''" by (simp add: sanitizeApiKey_def)
qed

theorem sanitizeApiKey_masks_long_witness:
  "8 < length ''secret-token:abc123456789''
   \<and> sanitizeApiKey ''secret-token:abc123456789'' = ''secret-t...''
   \<and> \<not> str_includes (sanitizeApiKey ''secret-token:abc123456789'') ''secret-token:abc123456789''
   \<and> sanitizeApiKey ''abcdefgh..'' = ''abcdefgh...''
   \<and> str_includes (sanitizeApiKey ''abcdefgh..'') ''abcdefgh..''
   \<and> sanitizeApiKey ''short'' = ''short''
   \<and> sanitizeApiKey [] = ''[missing]''"
  using sanitizeApiKey_masks_long [of "''secret-token:abc123456789''"]
    sanitizeApiKey_masks_long [of "''abcdefgh..''"]
    sanitizeApiKey_masks_long [of "''short''"]
    sanitizeApiKey_masks_long [of "[]"]
  by simp

section \<open>Masking of account numbers\<close>

text \<open>
  Claim C9: for an account number of at least five characters the result is
  \<open>min (length - 4) 4\<close> asterisks followed by exactly the last four characters of the input,
  so at most four asterisks are shown and the result is determined by the length and the last
  four characters alone; an input of at most four characters, the empty string included, is
  returned unchanged.
\<close>

theorem maskAccountNumber_tail:
  "(5 \<le> length a \<longrightarrow>
      maskAccountNumber a
        = replicate (min (length a - 4) 4) (CHR ''*'') @ rev (take 4 (rev a))
      \<and> length (rev (take 4 (rev a))) = 4
      \<and> min (length a - 4) 4 \<le> 4)
   \<and> (length a \<le> 4 \<longrightarrow> maskAccountNumber a = a)"
  by (auto simp: maskAccountNumber_def Let_def take_rev)

theorem maskAccountNumber_tail_witness:
  "5 \<le> length ''1234567890'' \<and> maskAccountNumber ''1234567890'' = ''****7890''
   \<and> 5 \<le> length ''12345'' \<and> maskAccountNumber ''12345'' = ''*2345''
   \<and> length ''123'' \<le> 4 \<and> maskAccountNumber ''123'' = ''123''
   \<and> length [] \<le> 4 \<and> maskAccountNumber [] = []"
  using maskAccountNumber_tail [of "''1234567890''"] maskAccountNumber_tail [of "''12345''"]
    maskAccountNumber_tail [of "''123''"] maskAccountNumber_tail [of "[]"]
  by simp

section \<open>Retrying a request\<close>
















section \<open>Response envelopes\<close>

text \<open>
  Claim C3, as stated: a failure envelope makes \<^verbatim>\<open>apiRequest\<close> throw an
  \<^verbatim>\<open>ApiClientError\<close> carrying the envelope error's message. An envelope whose message is the
  empty string is thrown with the message \<^verbatim>\<open>'API error'\<close> instead.
\<close>

theorem apiRequest_empty_message_counterexample:
  "apiRequest (Inr \<lparr>status = 400,
       json = Some (ApiFailure [] ''BAD_REQUEST'' Undefined :: js_value ApiResponse)\<rparr>)
     = Inl (ApiClientError ''API error'' (Some 400) (Some ''BAD_REQUEST'') Undefined)
   \<and> apiRequest (Inr \<lparr>status = 400,
       json = Some (ApiFailure [] ''BAD_REQUEST'' Undefined :: js_value ApiResponse)\<rparr>)
     \<noteq> Inl (ApiClientError [] (Some 400) (Some ''BAD_REQUEST'') Undefined)"
  by (simp add: apiRequest_def fetchWithTimeout_def handle_response_def)

text \<open>
  Claim C3, amended: for every response, a success envelope makes the call return exactly the
  envelope's data; a failure envelope makes it throw an \<^verbatim>\<open>ApiClientError\<close> with the
  response status and the envelope error's code and details, and with the envelope error's
  message, or \<^verbatim>\<open>'API error'\<close> when that message is empty; a body that is not valid JSON
  makes it throw an error with code \<^verbatim>\<open>INVALID_RESPONSE\<close>. A value is returned in the first
  case only.
\<close>

theorem apiRequest_envelope:
  "(\<forall>d. json resp = Some (ApiSuccess d) \<longrightarrow> apiRequest (Inr resp) = Inr d)
   \<and> (\<forall>msg code details. json resp = Some (ApiFailure msg code details) \<longrightarrow>
         apiRequest (Inr resp)
           = Inl (ApiClientError (if msg = [] then ''API error'' else msg)
                    (Some (status resp)) (Some code) details))
   \<and> (json resp = None \<longrightarrow>
         apiRequest (Inr resp)
           = Inl (ApiClientError ''Invalid JSON response'' (Some (status resp))
                    (Some ''INVALID_RESPONSE'') Undefined))
   \<and> ((\<exists>v. apiRequest (Inr resp) = Inr v) \<longleftrightarrow> (\<exists>d. json resp = Some (ApiSuccess d)))"
  by (auto simp: apiRequest_def fetchWithTimeout_def handle_response_def
      split: option.splits ApiResponse.splits)

theorem apiRequest_envelope_witness:
  "apiRequest (Inr \<lparr>status = 200, json = Some (ApiSuccess (Number (Num 50000)))\<rparr>)
     = Inr (Number (Num 50000))
   \<and> apiRequest (Inr \<lparr>status = 404,
         json = Some (ApiFailure ''No such entity'' ''NOT_FOUND'' Null
                        :: js_value ApiResponse)\<rparr>)
     = Inl (ApiClientError ''No such entity'' (Some 404) (Some ''NOT_FOUND'') Null)
   \<and> apiRequest (Inr \<lparr>status = 502, json = (None :: js_value ApiResponse option)\<rparr>)
     = Inl (ApiClientError ''Invalid JSON response'' (Some 502) (Some ''INVALID_RESPONSE'')
              Undefined)"
  using
    apiRequest_envelope [of "\<lparr>status = 200, json = Some (ApiSuccess (Number (Num 50000)))\<rparr>"]
    apiRequest_envelope [of "\<lparr>status = 404,
         json = Some (ApiFailure ''No such entity'' ''NOT_FOUND'' Null
                        :: js_value ApiResponse)\<rparr>"]
    apiRequest_envelope [of "\<lparr>status = 502, json = (None :: js_value ApiResponse option)\<rparr>"]
  by simp

section \<open>Sanitizing objects for logs\<close>











section \<open>Zod combinators\<close>

lemma issues_of_simps [simp]: "issues_of (Inl issues) = issues" "issues_of (Inr v) = []"
  by (simp_all add: issues_of_def)

lemma issues_of_empty_iff: "issues_of r = [] \<longleftrightarrow> (\<exists>v. r = Inr v) \<or> r = Inl []"
  by (cases r) auto

lemma path_map_filter:
  "i \<in> set (List.map_filter (\<lambda>c. map_option (ZodIssue p) (f c)) checks) \<Longrightarrow> path i = p"
  by (auto simp: List.map_filter_def)

lemma path_local_z_number: "path_local (z_number checks)"
  unfolding path_local_def
proof (intro allI ballI)
  fix p v i assume i: "i \<in> set (issues_of (z_number checks p v))"
  show "path i = p"
  proof (cases "\<exists>n. v = Number n \<and> n \<noteq> NaN")
    case True
    then obtain n where n: "v = Number n" "n \<noteq> NaN" by blast
    show ?thesis
      using i path_map_filter [of i p "\<lambda>c. number_issue c n" checks] n
      by (auto simp: z_number_def split: list.splits)
  next
    case False
    then show ?thesis using i
      by (cases v) (auto simp: z_number_def invalid_type_def)
  qed
qed

lemma path_local_z_string: "path_local (z_string checks)"
  unfolding path_local_def
proof (intro allI ballI)
  fix p v i assume i: "i \<in> set (issues_of (z_string checks p v))"
  show "path i = p"
  proof (cases v)
    case (Str s)
    show ?thesis
      using i path_map_filter [of i p "\<lambda>c. string_issue c s" checks] Str
      by (auto simp: z_string_def split: list.splits)
  qed (use i in \<open>auto simp: z_string_def invalid_type_def\<close>)
qed

lemma path_local_z_optional: "path_local s \<Longrightarrow> path_local (z_optional s)"
  by (auto simp: path_local_def z_optional_def)

lemma path_local_z_default: "path_local s \<Longrightarrow> path_local (z_default s d)"
  by (auto simp: path_local_def z_default_def)

lemma reports_issues_z_number: "reports_issues (z_number checks)"
  by (auto simp: reports_issues_def z_number_def split: js_value.splits list.splits)

lemma reports_issues_z_string: "reports_issues (z_string checks)"
  by (auto simp: reports_issues_def z_string_def split: js_value.splits list.splits)

lemma reports_issues_z_optional: "reports_issues s \<Longrightarrow> reports_issues (z_optional s)"
  by (auto simp: reports_issues_def z_optional_def)

lemma reports_issues_z_default: "reports_issues s \<Longrightarrow> reports_issues (z_default s d)"
  by (auto simp: reports_issues_def z_default_def)

lemma parse_fields_issues:
  "set (fst (parse_fields shape p entries))
     = (\<Union>(k, s) \<in> set shape. set (issues_of (s (p @ [Key k]) (js_get entries k))))"
  by (induction shape) (auto simp: split_beta split: sum.splits)

lemma parse_fields_keys:
  "(k, v) \<in> set (snd (parse_fields shape p entries)) \<Longrightarrow> k \<in> fst ` set shape"
  by (induction shape) (force simp: split_beta split: sum.splits if_splits)+

lemma js_get_absent: "k \<notin> fst ` set entries \<Longrightarrow> js_get entries k = Undefined"
  by (induction entries) auto

lemma issues_of_z_object:
  "issues_of (z_object shape p (Obj entries)) = fst (parse_fields shape p entries)"
  by (auto simp: z_object_def split: prod.splits list.splits)

lemma object_issue_at_key:
  assumes loc: "\<forall>(k, s) \<in> set shape. path_local s"
    and dist: "distinct (map fst shape)"
    and s: "map_of shape k = Some s"
  shows "(\<exists>i \<in> set (fst (parse_fields shape p entries)). path i = p @ [Key k])
     \<longleftrightarrow> issues_of (s (p @ [Key k]) (js_get entries k)) \<noteq> []"
proof
  assume "\<exists>i \<in> set (fst (parse_fields shape p entries)). path i = p @ [Key k]"
  then obtain i k' s' where i: "(k', s') \<in> set shape"
      "i \<in> set (issues_of (s' (p @ [Key k']) (js_get entries k')))" "path i = p @ [Key k]"
    by (auto simp: parse_fields_issues)
  have "path_local s'" using loc i(1) by auto
  then have "path i = p @ [Key k']" using i(2) by (auto simp: path_local_def)
  then have "k' = k" using i(3) by simp
  then have "s' = s" using i(1) s dist by simp
  then show "issues_of (s (p @ [Key k]) (js_get entries k)) \<noteq> []"
    using i(2) \<open>k' = k\<close> by auto
next
  assume ne: "issues_of (s (p @ [Key k]) (js_get entries k)) \<noteq> []"
  then obtain i where i: "i \<in> set (issues_of (s (p @ [Key k]) (js_get entries k)))"
    by (cases "issues_of (s (p @ [Key k]) (js_get entries k))") auto
  have ks: "(k, s) \<in> set shape" using s by (rule map_of_SomeD)
  then have "path_local s" using loc by auto
  then have "path i = p @ [Key k]" using i by (auto simp: path_local_def)
  moreover have "i \<in> set (fst (parse_fields shape p entries))"
    using i ks by (auto simp: parse_fields_issues)
  ultimately show "\<exists>i \<in> set (fst (parse_fields shape p entries)). path i = p @ [Key k]"
    by blast
qed

lemma object_output_at_key:
  assumes "distinct (map fst shape)" "map_of shape k = Some s"
    and "fst (parse_fields shape p entries) = []" "k \<noteq> ''__proto__''"
    and "\<forall>(k, s) \<in> set shape. reports_issues s"
  shows "s (p @ [Key k]) (js_get entries k)
     = Inr (js_get (snd (parse_fields shape p entries)) k)"
  using assms
proof (induction shape)
  case Nil
  then show ?case by simp
next
  case (Cons ks shape)
  obtain k' s' where ks: "ks = (k', s')" by (cases ks)
  obtain issues out where rest: "parse_fields shape p entries = (issues, out)"
    by (cases "parse_fields shape p entries")
  have "reports_issues s'" using Cons.prems(5) ks by simp
  then have "s' (p @ [Key k']) (js_get entries k') \<noteq> Inl []"
    by (simp add: reports_issues_def)
  with Cons.prems(3) obtain v where v: "s' (p @ [Key k']) (js_get entries k') = Inr v"
    and noi: "issues = []"
    by (auto simp: ks rest split: sum.splits)
  show ?case
  proof (cases "k' = k")
    case True
    then have ss: "s' = s" using Cons.prems(2) ks by simp
    have "k \<notin> fst ` set shape" using Cons.prems(1) ks True by auto
    then have "k \<notin> fst ` set out"
      using parse_fields_keys [of k _ shape p entries] rest by auto
    then have absent: "js_get out k = Undefined" by (rule js_get_absent)
    have "v = Undefined" if "\<not> (v \<noteq> Undefined \<or> k \<in> fst ` set entries)"
      using that by simp
    then show ?thesis
      using v True ss absent Cons.prems(4) by (auto simp: ks rest)
  next
    case False
    then have "map_of shape k = Some s" using Cons.prems(2) ks by simp
    moreover have "distinct (map fst shape)" using Cons.prems(1) by simp
    moreover have "fst (parse_fields shape p entries) = []" using rest noi by simp
    moreover have "\<forall>(k, s) \<in> set shape. reports_issues s" using Cons.prems(5) by simp
    ultimately have "s (p @ [Key k]) (js_get entries k)
        = Inr (js_get (snd (parse_fields shape p entries)) k)"
      using Cons.IH Cons.prems(4) by blast
    then show ?thesis using False v by (auto simp: ks rest)
  qed
qed

section \<open>Money amounts and pagination bounds\<close>

lemma isInteger_iff: "isInteger n \<longleftrightarrow> (\<exists>i::int. n = Num (of_int i))"
proof (cases n)
  case (Num q)
  have "of_int \<lfloor>q\<rfloor> = q \<longleftrightarrow> (\<exists>i::int. q = of_int i)"
    by (metis floor_of_int)
  then show ?thesis using Num by simp
qed simp_all

lemma map_filter_empty_iff:
  "List.map_filter f xs = [] \<longleftrightarrow> (\<forall>x \<in> set xs. f x = None)"
  by (auto simp: List.map_filter_def filter_empty_conv)

lemma z_number_accepts_iff:
  "issues_of (z_number checks p v) = []
     \<longleftrightarrow> (\<exists>n. v = Number n \<and> n \<noteq> NaN \<and> (\<forall>c \<in> set checks. number_issue c n = None))"
proof (cases v)
  case (Number n)
  have "List.map_filter (\<lambda>c. map_option (ZodIssue p) (number_issue c n)) checks = []
      \<longleftrightarrow> (\<forall>c \<in> set checks. number_issue c n = None)"
    by (simp add: map_filter_empty_iff)
  then show ?thesis using Number
    by (auto simp: z_number_def split: list.splits)
qed (simp_all add: z_number_def)

lemma z_number_output: "z_number checks p v = Inr out \<Longrightarrow> out = v"
  by (auto simp: z_number_def split: js_value.splits list.splits if_splits)

lemma limit_checks_iff:
  "(\<forall>c \<in> set [IsInt, Min 1, Max 1000]. number_issue c n = None) \<and> n \<noteq> NaN
     \<longleftrightarrow> (\<exists>i::int. n = Num (of_int i) \<and> 1 \<le> i \<and> i \<le> 1000)"
  by (cases n) (auto simp: isInteger_iff not_less simp del: isInteger.simps)

lemma offset_checks_iff:
  "(\<forall>c \<in> set [IsInt, Min 0]. number_issue c n = None) \<and> n \<noteq> NaN
     \<longleftrightarrow> (\<exists>i::int. n = Num (of_int i) \<and> 0 \<le> i)"
  by (cases n) (auto simp: isInteger_iff not_less simp del: isInteger.simps)

lemma cents_checks_iff:
  "(\<forall>c \<in> set [IsInt, IsFinite]. number_issue c n = None) \<and> n \<noteq> NaN
     \<longleftrightarrow> (\<exists>i::int. n = Num (of_int i))"
  by (cases n) (auto simp: isInteger_iff simp del: isInteger.simps)

lemma limit_schema_issues:
  "issues_of (z_default (z_optional (z_number [IsInt, Min 1, Max 1000])) (Number (Num 100)) p v)
     \<noteq> []
   \<longleftrightarrow> v \<noteq> Undefined \<and> \<not> (\<exists>i::int. v = Number (Num (of_int i)) \<and> 1 \<le> i \<and> i \<le> 1000)"
proof (cases "v = Undefined")
  case True
  have "(\<forall>c \<in> set [IsInt, Min 1, Max 1000]. number_issue c (Num 100) = None) \<and> Num 100 \<noteq> NaN"
    unfolding limit_checks_iff by (intro exI [of _ 100]) simp
  then have "issues_of (z_number [IsInt, Min 1, Max 1000] p (Number (Num 100))) = []"
    unfolding z_number_accepts_iff by blast
  then show ?thesis using True by (simp add: z_default_def z_optional_def)
next
  case False
  then have "issues_of (z_default (z_optional (z_number [IsInt, Min 1, Max 1000]))
        (Number (Num 100)) p v) = issues_of (z_number [IsInt, Min 1, Max 1000] p v)"
    by (simp add: z_default_def z_optional_def)
  then show ?thesis
    using False z_number_accepts_iff [of "[IsInt, Min 1, Max 1000]" p v] limit_checks_iff
    by (metis js_value.inject(2))
qed

lemma offset_schema_issues:
  "issues_of (z_default (z_optional (z_number [IsInt, Min 0])) (Number (Num 0)) p v) \<noteq> []
   \<longleftrightarrow> v \<noteq> Undefined \<and> \<not> (\<exists>i::int. v = Number (Num (of_int i)) \<and> 0 \<le> i)"
proof (cases "v = Undefined")
  case True
  have "(\<forall>c \<in> set [IsInt, Min 0]. number_issue c (Num 0) = None) \<and> Num 0 \<noteq> NaN"
    unfolding offset_checks_iff by (intro exI [of _ 0]) simp
  then have "issues_of (z_number [IsInt, Min 0] p (Number (Num 0))) = []"
    unfolding z_number_accepts_iff by blast
  then show ?thesis using True by (simp add: z_default_def z_optional_def)
next
  case False
  then have "issues_of (z_default (z_optional (z_number [IsInt, Min 0])) (Number (Num 0)) p v)
      = issues_of (z_number [IsInt, Min 0] p v)"
    by (simp add: z_default_def z_optional_def)
  then show ?thesis
    using False z_number_accepts_iff [of "[IsInt, Min 0]" p v] offset_checks_iff
    by (metis js_value.inject(2))
qed

lemma default_optional_number_output:
  "z_default (z_optional (z_number checks)) d p v = Inr out \<Longrightarrow> d \<noteq> Undefined
   \<Longrightarrow> out = (if v = Undefined then d else v)"
  by (auto simp: z_default_def z_optional_def dest: z_number_output split: if_splits)

text \<open>
  Claim C5: \<^verbatim>\<open>CentsSchema\<close> accepts a value exactly when it is a finite integer number
  (zero and the negative integers included; a fraction, \<^verbatim>\<open>NaN\<close>, an infinity and every
  value that is not a number are rejected), and what it returns is its input, so a validated
  amount is always an integer.
\<close>

theorem CentsSchema_finite_integer:
  "((\<exists>out. CentsSchema p v = Inr out) \<longleftrightarrow> (\<exists>i::int. v = Number (Num (of_int i))))
   \<and> (\<forall>out. CentsSchema p v = Inr out \<longrightarrow> out = v)"
proof -
  have "reports_issues CentsSchema"
    by (simp add: CentsSchema_def reports_issues_z_number)
  then have "(\<exists>out. CentsSchema p v = Inr out) \<longleftrightarrow> issues_of (CentsSchema p v) = []"
    by (auto simp: issues_of_empty_iff reports_issues_def)
  also have "\<dots> \<longleftrightarrow> (\<exists>i::int. v = Number (Num (of_int i)))"
    unfolding CentsSchema_def z_number_accepts_iff using cents_checks_iff
    by (metis js_value.inject(2))
  finally show ?thesis
    by (auto simp: CentsSchema_def dest: z_number_output)
qed

theorem CentsSchema_finite_integer_witness:
  "CentsSchema [] (Number (Num 12345)) = Inr (Number (Num 12345))
   \<and> CentsSchema [] (Number (Num (- 500))) = Inr (Number (Num (- 500)))
   \<and> CentsSchema [] (Number (Num 0)) = Inr (Number (Num 0))
   \<and> (\<forall>out. CentsSchema [] (Number (Num (12345 / 100))) \<noteq> Inr out)
   \<and> (\<forall>out. CentsSchema [] (Number NaN) \<noteq> Inr out)
   \<and> (\<forall>out. CentsSchema [] (Number PosInfinity) \<noteq> Inr out)"
proof -
  have i: "\<exists>i::int. Number (Num 12345) = Number (Num (of_int i))"
    "\<exists>i::int. Number (Num (- 500)) = Number (Num (of_int i))"
    "\<exists>i::int. Number (Num 0) = Number (Num (of_int i))"
    by (intro exI [of _ 12345], simp, intro exI [of _ "- 500"], simp, intro exI [of _ 0], simp)
  have "of_int i \<noteq> (12345 / 100 :: rat)" for i :: int
  proof
    assume "of_int i = (12345 / 100 :: rat)"
    then have "(of_int (i * 100) :: rat) = of_int 12345" by simp
    then have "i * 100 = 12345" by (simp only: of_int_eq_iff)
    then show False by presburger
  qed
  then have n: "\<not> (\<exists>i::int. Number (Num (12345 / 100)) = Number (Num (of_int i)))"
    by (metis js_value.inject(2) js_number.inject)
  show ?thesis
    using i n
      CentsSchema_finite_integer [of "[]" "Number (Num 12345)"]
      CentsSchema_finite_integer [of "[]" "Number (Num (- 500))"]
      CentsSchema_finite_integer [of "[]" "Number (Num 0)"]
      CentsSchema_finite_integer [of "[]" "Number (Num (12345 / 100))"]
      CentsSchema_finite_integer [of "[]" "Number NaN"]
      CentsSchema_finite_integer [of "[]" "Number PosInfinity"]
    by auto
qed

lemma shape_distinct: "distinct (map fst TransactionQuery_shape)"
  by (simp add: TransactionQuery_shape_def)

lemma shape_path_local: "\<forall>(k, s) \<in> set TransactionQuery_shape. path_local s"
  by (simp add: TransactionQuery_shape_def EntityIdSchema_def DateSchema_def CentsSchema_def
      path_local_z_optional path_local_z_default path_local_z_number path_local_z_string)

lemma shape_reports_issues: "\<forall>(k, s) \<in> set TransactionQuery_shape. reports_issues s"
  by (simp add: TransactionQuery_shape_def EntityIdSchema_def DateSchema_def CentsSchema_def
      reports_issues_z_optional reports_issues_z_default reports_issues_z_number
      reports_issues_z_string)

lemma shape_limit:
  "map_of TransactionQuery_shape ''limit''
     = Some (z_default (z_optional (z_number [IsInt, Min 1, Max 1000])) (Number (Num 100)))"
  by (simp add: TransactionQuery_shape_def)

lemma shape_offset:
  "map_of TransactionQuery_shape ''offset''
     = Some (z_default (z_optional (z_number [IsInt, Min 0])) (Number (Num 0)))"
  by (simp add: TransactionQuery_shape_def)

lemma z_object_success:
  "z_object shape p (Obj entries) = Inr out
   \<Longrightarrow> fst (parse_fields shape p entries) = [] \<and> out = Obj (snd (parse_fields shape p entries))"
  by (auto simp: z_object_def split: prod.splits list.splits)

lemma z_object_accepts_iff:
  "(\<exists>out. z_object shape p (Obj entries) = Inr out)
     \<longleftrightarrow> (\<forall>(k, s) \<in> set shape. issues_of (s (p @ [Key k]) (js_get entries k)) = [])"
proof -
  have "(\<exists>out. z_object shape p (Obj entries) = Inr out)
      \<longleftrightarrow> fst (parse_fields shape p entries) = []"
    by (auto simp: z_object_def split: prod.splits list.splits)
  also have "\<dots> \<longleftrightarrow> set (fst (parse_fields shape p entries)) = {}"
    by simp
  also have "\<dots> \<longleftrightarrow> (\<forall>(k, s) \<in> set shape. issues_of (s (p @ [Key k]) (js_get entries k)) = [])"
    unfolding parse_fields_issues by auto
  finally show ?thesis .
qed

lemma accepts_iff_no_issues:
  "reports_issues s \<Longrightarrow> issues_of (s p v) = [] \<longleftrightarrow> (\<exists>out. s p v = Inr out)"
  by (auto simp: issues_of_empty_iff reports_issues_def)

lemma z_optional_Undefined: "z_optional s p Undefined = Inr Undefined"
  by (simp add: z_optional_def)

lemma TransactionQuerySchema_accepts_iff:
  "(\<exists>out. TransactionQuerySchema [] (Obj entries) = Inr out)
     \<longleftrightarrow> (\<forall>(k, s) \<in> set TransactionQuery_shape.
            k \<noteq> ''limit'' \<and> k \<noteq> ''offset'' \<longrightarrow> (\<exists>v. s [Key k] (js_get entries k) = Inr v))
         \<and> (js_get entries ''limit'' = Undefined
            \<or> (\<exists>n::int. js_get entries ''limit'' = Number (Num (of_int n))
                  \<and> 1 \<le> n \<and> n \<le> 1000))
         \<and> (js_get entries ''offset'' = Undefined
            \<or> (\<exists>n::int. js_get entries ''offset'' = Number (Num (of_int n)) \<and> 0 \<le> n))"
proof -
  let ?l = "z_default (z_optional (z_number [IsInt, Min 1, Max 1000])) (Number (Num 100))"
  let ?o = "z_default (z_optional (z_number [IsInt, Min 0])) (Number (Num 0))"
  have l: "issues_of (?l [Key ''limit''] (js_get entries ''limit'')) = []
      \<longleftrightarrow> js_get entries ''limit'' = Undefined
          \<or> (\<exists>n::int. js_get entries ''limit'' = Number (Num (of_int n)) \<and> 1 \<le> n \<and> n \<le> 1000)"
    using limit_schema_issues [of "[Key ''limit'']" "js_get entries ''limit''"] by blast
  have o: "issues_of (?o [Key ''offset''] (js_get entries ''offset'')) = []
      \<longleftrightarrow> js_get entries ''offset'' = Undefined
          \<or> (\<exists>n::int. js_get entries ''offset'' = Number (Num (of_int n)) \<and> 0 \<le> n)"
    using offset_schema_issues [of "[Key ''offset'']" "js_get entries ''offset''"] by blast
  have split: "(\<forall>(k, s) \<in> set TransactionQuery_shape. Q k s)
      \<longleftrightarrow> (\<forall>(k, s) \<in> set TransactionQuery_shape. k \<noteq> ''limit'' \<and> k \<noteq> ''offset'' \<longrightarrow> Q k s)
          \<and> Q ''limit'' ?l \<and> Q ''offset'' ?o" for Q
    by (simp add: TransactionQuery_shape_def)
  have others: "(\<forall>(k, s) \<in> set TransactionQuery_shape. k \<noteq> ''limit'' \<and> k \<noteq> ''offset'' \<longrightarrow>
         issues_of (s [Key k] (js_get entries k)) = [])
     \<longleftrightarrow> (\<forall>(k, s) \<in> set TransactionQuery_shape. k \<noteq> ''limit'' \<and> k \<noteq> ''offset'' \<longrightarrow>
         (\<exists>v. s [Key k] (js_get entries k) = Inr v))"
    using shape_reports_issues accepts_iff_no_issues by fastforce
  have "(\<exists>out. TransactionQuerySchema [] (Obj entries) = Inr out)
      \<longleftrightarrow> (\<forall>(k, s) \<in> set TransactionQuery_shape. issues_of (s [Key k] (js_get entries k)) = [])"
    unfolding TransactionQuerySchema_def z_object_accepts_iff by simp
  also have "\<dots> \<longleftrightarrow> (\<forall>(k, s) \<in> set TransactionQuery_shape. k \<noteq> ''limit'' \<and> k \<noteq> ''offset'' \<longrightarrow>
         issues_of (s [Key k] (js_get entries k)) = [])
       \<and> issues_of (?l [Key ''limit''] (js_get entries ''limit'')) = []
       \<and> issues_of (?o [Key ''offset''] (js_get entries ''offset'')) = []"
    by (rule split)
  finally show ?thesis
    unfolding l o others .
qed

lemma TransactionQuerySchema_others_absent:
  assumes "list_all (\<lambda>k. js_get entries k = Undefined)
     [''entityId'', ''accountId'', ''startDate'', ''endDate'', ''minAmount'', ''maxAmount'',
      ''search'']"
  shows "\<forall>(k, s) \<in> set TransactionQuery_shape.
            k \<noteq> ''limit'' \<and> k \<noteq> ''offset'' \<longrightarrow> (\<exists>v. s [Key k] (js_get entries k) = Inr v)"
  using assms by (simp add: TransactionQuery_shape_def z_optional_Undefined)

text \<open>
  Claim C4: for every input object parsed with \<^verbatim>\<open>TransactionQuerySchema\<close>, the parse
  succeeds exactly when each of the seven other properties is accepted by its own schema, the
  limit is absent or an integer between 1 and 1000, and the offset is absent or a non-negative
  integer; in particular, when the seven other properties are absent, it succeeds exactly when
  the limit and the offset are each absent or within their bounds. An issue is reported for
  \<^verbatim>\<open>limit\<close> exactly when a limit is supplied that is not an integer between 1 and 1000,
  and for \<^verbatim>\<open>offset\<close> exactly when an offset is supplied that is not a non-negative integer,
  whatever the other properties are. When the parse succeeds, the result is an object whose
  limit is the supplied one, or 100 when none is supplied, and whose offset is the supplied
  one, or 0 when none is supplied.
\<close>

theorem TransactionQuerySchema_pagination:
  "((\<exists>out. TransactionQuerySchema [] (Obj entries) = Inr out)
      \<longleftrightarrow> (\<forall>(k, s) \<in> set TransactionQuery_shape.
             k \<noteq> ''limit'' \<and> k \<noteq> ''offset'' \<longrightarrow> (\<exists>v. s [Key k] (js_get entries k) = Inr v))
          \<and> (js_get entries ''limit'' = Undefined
             \<or> (\<exists>n::int. js_get entries ''limit'' = Number (Num (of_int n))
                   \<and> 1 \<le> n \<and> n \<le> 1000))
          \<and> (js_get entries ''offset'' = Undefined
             \<or> (\<exists>n::int. js_get entries ''offset'' = Number (Num (of_int n)) \<and> 0 \<le> n)))
   \<and> (list_all (\<lambda>k. js_get entries k = Undefined)
         [''entityId'', ''accountId'', ''startDate'', ''endDate'', ''minAmount'', ''maxAmount'',
          ''search'']
      \<longrightarrow> ((\<exists>out. TransactionQuerySchema [] (Obj entries) = Inr out)
           \<longleftrightarrow> (js_get entries ''limit'' = Undefined
                  \<or> (\<exists>n::int. js_get entries ''limit'' = Number (Num (of_int n))
                        \<and> 1 \<le> n \<and> n \<le> 1000))
               \<and> (js_get entries ''offset'' = Undefined
                  \<or> (\<exists>n::int. js_get entries ''offset'' = Number (Num (of_int n))
                        \<and> 0 \<le> n))))
   \<and> ((\<exists>i \<in> set (issues_of (TransactionQuerySchema [] (Obj entries))). path i = [Key ''limit''])
      \<longleftrightarrow> js_get entries ''limit'' \<noteq> Undefined
          \<and> \<not> (\<exists>n::int. js_get entries ''limit'' = Number (Num (of_int n))
                  \<and> 1 \<le> n \<and> n \<le> 1000))
   \<and> ((\<exists>i \<in> set (issues_of (TransactionQuerySchema [] (Obj entries))). path i = [Key ''offset''])
      \<longleftrightarrow> js_get entries ''offset'' \<noteq> Undefined
          \<and> \<not> (\<exists>n::int. js_get entries ''offset'' = Number (Num (of_int n)) \<and> 0 \<le> n))
   \<and> (\<forall>out. TransactionQuerySchema [] (Obj entries) = Inr out \<longrightarrow>
         (\<exists>parsed. out = Obj parsed
            \<and> js_get parsed ''limit''
                = (if js_get entries ''limit'' = Undefined then Number (Num 100)
                   else js_get entries ''limit'')
            \<and> js_get parsed ''offset''
                = (if js_get entries ''offset'' = Undefined then Number (Num 0)
                   else js_get entries ''offset'')))"
proof -
  have accepts: "(\<exists>out. TransactionQuerySchema [] (Obj entries) = Inr out)
      \<longleftrightarrow> (\<forall>(k, s) \<in> set TransactionQuery_shape.
             k \<noteq> ''limit'' \<and> k \<noteq> ''offset'' \<longrightarrow> (\<exists>v. s [Key k] (js_get entries k) = Inr v))
          \<and> (js_get entries ''limit'' = Undefined
             \<or> (\<exists>n::int. js_get entries ''limit'' = Number (Num (of_int n))
                   \<and> 1 \<le> n \<and> n \<le> 1000))
          \<and> (js_get entries ''offset'' = Undefined
             \<or> (\<exists>n::int. js_get entries ''offset'' = Number (Num (of_int n)) \<and> 0 \<le> n))"
    by (rule TransactionQuerySchema_accepts_iff)
  have alone: "(\<exists>out. TransactionQuerySchema [] (Obj entries) = Inr out)
           \<longleftrightarrow> (js_get entries ''limit'' = Undefined
                  \<or> (\<exists>n::int. js_get entries ''limit'' = Number (Num (of_int n))
                        \<and> 1 \<le> n \<and> n \<le> 1000))
               \<and> (js_get entries ''offset'' = Undefined
                  \<or> (\<exists>n::int. js_get entries ''offset'' = Number (Num (of_int n))
                        \<and> 0 \<le> n))"
    if "list_all (\<lambda>k. js_get entries k = Undefined)
         [''entityId'', ''accountId'', ''startDate'', ''endDate'', ''minAmount'', ''maxAmount'',
          ''search'']"
    using TransactionQuerySchema_others_absent [OF that]
    unfolding TransactionQuerySchema_accepts_iff by blast
  have limit: "(\<exists>i \<in> set (issues_of (TransactionQuerySchema [] (Obj entries))).
        path i = [Key ''limit''])
      \<longleftrightarrow> js_get entries ''limit'' \<noteq> Undefined
          \<and> \<not> (\<exists>n::int. js_get entries ''limit'' = Number (Num (of_int n))
                  \<and> 1 \<le> n \<and> n \<le> 1000)"
    using object_issue_at_key [OF shape_path_local shape_distinct shape_limit, of "[]" entries]
    by (simp only: TransactionQuerySchema_def issues_of_z_object limit_schema_issues append_Nil)
  have offset: "(\<exists>i \<in> set (issues_of (TransactionQuerySchema [] (Obj entries))).
        path i = [Key ''offset''])
      \<longleftrightarrow> js_get entries ''offset'' \<noteq> Undefined
          \<and> \<not> (\<exists>n::int. js_get entries ''offset'' = Number (Num (of_int n)) \<and> 0 \<le> n)"
    using object_issue_at_key [OF shape_path_local shape_distinct shape_offset, of "[]" entries]
    by (simp only: TransactionQuerySchema_def issues_of_z_object offset_schema_issues append_Nil)
  have result: "\<exists>parsed. out = Obj parsed
            \<and> js_get parsed ''limit''
                = (if js_get entries ''limit'' = Undefined then Number (Num 100)
                   else js_get entries ''limit'')
            \<and> js_get parsed ''offset''
                = (if js_get entries ''offset'' = Undefined then Number (Num 0)
                   else js_get entries ''offset'')"
    if "TransactionQuerySchema [] (Obj entries) = Inr out" for out
  proof -
    from that have ok: "fst (parse_fields TransactionQuery_shape [] entries) = []"
      and out: "out = Obj (snd (parse_fields TransactionQuery_shape [] entries))"
      using z_object_success [of TransactionQuery_shape "[]" entries out]
      by (simp_all add: TransactionQuerySchema_def)
    let ?parsed = "snd (parse_fields TransactionQuery_shape [] entries)"
    have "z_default (z_optional (z_number [IsInt, Min 1, Max 1000])) (Number (Num 100))
            ([] @ [Key ''limit'']) (js_get entries ''limit'') = Inr (js_get ?parsed ''limit'')"
      by (rule object_output_at_key [OF shape_distinct shape_limit ok _ shape_reports_issues])
        simp
    then have l: "js_get ?parsed ''limit''
        = (if js_get entries ''limit'' = Undefined then Number (Num 100)
           else js_get entries ''limit'')"
      by (rule default_optional_number_output) simp
    have "z_default (z_optional (z_number [IsInt, Min 0])) (Number (Num 0))
            ([] @ [Key ''offset'']) (js_get entries ''offset'') = Inr (js_get ?parsed ''offset'')"
      by (rule object_output_at_key [OF shape_distinct shape_offset ok _ shape_reports_issues])
        simp
    then have "js_get ?parsed ''offset''
        = (if js_get entries ''offset'' = Undefined then Number (Num 0)
           else js_get entries ''offset'')"
      by (rule default_optional_number_output) simp
    with l out show ?thesis by blast
  qed
  show ?thesis
    using accepts alone limit offset result by (intro conjI allI impI) blast+
qed

lemma TransactionQuerySchema_empty:
  "TransactionQuerySchema [] (Obj [])
     = Inr (Obj [(''limit'', Number (Num 100)), (''offset'', Number (Num 0))])"
  by code_simp

lemma TransactionQuerySchema_fifty:
  "TransactionQuerySchema [] (Obj [(''limit'', Number (Num 50)), (''offset'', Number (Num 20))])
     = Inr (Obj [(''limit'', Number (Num 50)), (''offset'', Number (Num 20))])"
  by code_simp

theorem TransactionQuerySchema_pagination_witness:
  "list_all (\<lambda>k. js_get [(''limit'', Number (Num 1001))] k = Undefined)
         [''entityId'', ''accountId'', ''startDate'', ''endDate'', ''minAmount'', ''maxAmount'',
          ''search'']
   \<and> \<not> (\<exists>out. TransactionQuerySchema [] (Obj [(''limit'', Number (Num 1001))]) = Inr out)
   \<and> list_all (\<lambda>k. js_get [(''limit'', Number (Num 1000))] k = Undefined)
         [''entityId'', ''accountId'', ''startDate'', ''endDate'', ''minAmount'', ''maxAmount'',
          ''search'']
   \<and> (\<exists>out. TransactionQuerySchema [] (Obj [(''limit'', Number (Num 1000))]) = Inr out)
   \<and> TransactionQuerySchema []
         (Obj [(''limit'', Number (Num 50)), (''offset'', Number (Num 20))])
       = Inr (Obj [(''limit'', Number (Num 50)), (''offset'', Number (Num 20))])
   \<and> (\<exists>i \<in> set (issues_of (TransactionQuerySchema [] (Obj [(''limit'', Number (Num 1001))]))).
       path i = [Key ''limit''])
   \<and> (\<exists>i \<in> set (issues_of (TransactionQuerySchema [] (Obj [(''limit'', Number (Num 0))]))).
       path i = [Key ''limit''])
   \<and> (\<exists>i \<in> set (issues_of (TransactionQuerySchema [] (Obj [(''limit'', Str ''50'')]))).
       path i = [Key ''limit''])
   \<and> \<not> (\<exists>i \<in> set (issues_of (TransactionQuerySchema [] (Obj [(''limit'', Number (Num 1000))]))).
       path i = [Key ''limit''])
   \<and> (\<exists>i \<in> set (issues_of (TransactionQuerySchema [] (Obj [(''offset'', Number (Num (- 1)))]))).
       path i = [Key ''offset''])
   \<and> \<not> (\<exists>i \<in> set (issues_of (TransactionQuerySchema [] (Obj [(''offset'', Number (Num 0))]))).
       path i = [Key ''offset''])
   \<and> (\<exists>parsed. TransactionQuerySchema [] (Obj []) = Inr (Obj parsed)
         \<and> js_get parsed ''limit'' = Number (Num 100)
         \<and> js_get parsed ''offset'' = Number (Num 0))"
proof -
  have big: "\<not> (\<exists>n::int. Number (Num 1001) = Number (Num (of_int n)) \<and> 1 \<le> n \<and> n \<le> 1000)"
    by auto
  have zero: "\<not> (\<exists>n::int. Number (Num 0) = Number (Num (of_int n)) \<and> 1 \<le> n \<and> n \<le> 1000)"
    by auto
  have top: "\<exists>n::int. Number (Num 1000) = Number (Num (of_int n)) \<and> 1 \<le> n \<and> n \<le> 1000"
    by (intro exI [of _ 1000]) simp
  have neg: "\<not> (\<exists>n::int. Number (Num (- 1)) = Number (Num (of_int n)) \<and> 0 \<le> n)"
    by auto
  have nought: "\<exists>n::int. Number (Num 0) = Number (Num (of_int n)) \<and> 0 \<le> n"
    by (intro exI [of _ 0]) simp
  have absent: "list_all (\<lambda>k. js_get [(''limit'', v)] k = Undefined)
         [''entityId'', ''accountId'', ''startDate'', ''endDate'', ''minAmount'', ''maxAmount'',
          ''search'']" for v
    by simp
  have refused: "\<not> (\<exists>out. TransactionQuerySchema [] (Obj [(''limit'', Number (Num 1001))])
      = Inr out)"
    using TransactionQuerySchema_pagination [of "[(''limit'', Number (Num 1001))]",
        THEN conjunct2, THEN conjunct1] absent [of "Number (Num 1001)"] big
    by simp
  have accepted: "\<exists>out. TransactionQuerySchema [] (Obj [(''limit'', Number (Num 1000))])
      = Inr out"
    using TransactionQuerySchema_pagination [of "[(''limit'', Number (Num 1000))]",
        THEN conjunct2, THEN conjunct1] absent [of "Number (Num 1000)"] top
    by simp
  have l1: "\<exists>i \<in> set (issues_of (TransactionQuerySchema []
        (Obj [(''limit'', Number (Num 1001))]))). path i = [Key ''limit'']"
    using TransactionQuerySchema_pagination [of "[(''limit'', Number (Num 1001))]",
        THEN conjunct2, THEN conjunct2, THEN conjunct1] big
    by simp
  have l2: "\<exists>i \<in> set (issues_of (TransactionQuerySchema []
        (Obj [(''limit'', Number (Num 0))]))). path i = [Key ''limit'']"
    using TransactionQuerySchema_pagination [of "[(''limit'', Number (Num 0))]",
        THEN conjunct2, THEN conjunct2, THEN conjunct1] zero
    by simp
  have l3: "\<exists>i \<in> set (issues_of (TransactionQuerySchema []
        (Obj [(''limit'', Str ''50'')]))). path i = [Key ''limit'']"
    using TransactionQuerySchema_pagination [of "[(''limit'', Str ''50'')]",
        THEN conjunct2, THEN conjunct2, THEN conjunct1]
    by simp
  have l4: "\<not> (\<exists>i \<in> set (issues_of (TransactionQuerySchema []
        (Obj [(''limit'', Number (Num 1000))]))). path i = [Key ''limit''])"
    using TransactionQuerySchema_pagination [of "[(''limit'', Number (Num 1000))]",
        THEN conjunct2, THEN conjunct2, THEN conjunct1] top
    by simp
  have o1: "\<exists>i \<in> set (issues_of (TransactionQuerySchema []
        (Obj [(''offset'', Number (Num (- 1)))]))). path i = [Key ''offset'']"
    using TransactionQuerySchema_pagination [of "[(''offset'', Number (Num (- 1)))]",
        THEN conjunct2, THEN conjunct2, THEN conjunct2, THEN conjunct1] neg
    by simp
  have o2: "\<not> (\<exists>i \<in> set (issues_of (TransactionQuerySchema []
        (Obj [(''offset'', Number (Num 0))]))). path i = [Key ''offset''])"
    using TransactionQuerySchema_pagination [of "[(''offset'', Number (Num 0))]",
        THEN conjunct2, THEN conjunct2, THEN conjunct2, THEN conjunct1] nought
    by simp
  have d: "\<exists>parsed. TransactionQuerySchema [] (Obj []) = Inr (Obj parsed)
         \<and> js_get parsed ''limit'' = Number (Num 100)
         \<and> js_get parsed ''offset'' = Number (Num 0)"
    using TransactionQuerySchema_pagination [of "[]",
        THEN conjunct2, THEN conjunct2, THEN conjunct2, THEN conjunct2]
      TransactionQuerySchema_empty
    by simp
  show ?thesis
    using absent [of "Number (Num 1001)"] absent [of "Number (Num 1000)"] refused accepted
      TransactionQuerySchema_fifty l1 l2 l3 l4 o1 o2 d
    by (intro conjI)
qed

section \<open>Validation results and their formatting\<close>

















section \<open>Rounding to binary64\<close>

lemma two_powi_pos: "0 < (2::rat) powi n"
  by (simp add: zero_less_power_int)

lemma two_powi_less_cancel: "(2::rat) powi m < 2 powi n \<Longrightarrow> m < n"
proof (rule ccontr)
  assume lt: "(2::rat) powi m < 2 powi n" and "\<not> m < n"
  then have "n \<le> m" by simp
  then have "(2::rat) powi n \<le> 2 powi m" by (intro power_int_increasing) simp_all
  with lt show False by simp
qed

lemma two_powi_mono: "m \<le> n \<Longrightarrow> (2::rat) powi m \<le> 2 powi n"
  by (intro power_int_increasing) simp_all

lemma two_powi_add: "(2::rat) powi (m + n) = 2 powi m * 2 powi n"
  by (simp add: power_int_add)

lemma two_powi_diff: "(2::rat) powi (m - n) = 2 powi m / 2 powi n"
  by (simp add: power_int_diff)

lemma bitlen_powi_bounds:
  assumes "0 < a"
  shows "(2::rat) powi (bitlen a - 1) \<le> of_int a" "of_int a < (2::rat) powi bitlen a"
proof -
  have b: "2 ^ nat (bitlen a - 1) \<le> a" "a < 2 ^ nat (bitlen a)"
    using bitlen_bounds [OF assms] by simp_all
  have pos: "1 \<le> bitlen a"
    using assms bitlen_ge_iff_power [of 1 a] by simp
  have "(2::rat) powi (bitlen a - 1) = 2 ^ nat (bitlen a - 1)"
    using pos by (simp add: power_int_nonneg_exp)
  also have "\<dots> = of_int (2 ^ nat (bitlen a - 1))" by simp
  also have "\<dots> \<le> of_int a" using b(1) by (simp only: of_int_le_iff)
  finally show "(2::rat) powi (bitlen a - 1) \<le> of_int a" .
  have "(of_int a :: rat) < of_int (2 ^ nat (bitlen a))" using b(2) by (simp only: of_int_less_iff)
  also have "\<dots> = 2 ^ nat (bitlen a)" by simp
  also have "\<dots> = (2::rat) powi bitlen a"
    using pos by (simp add: power_int_nonneg_exp)
  finally show "of_int a < (2::rat) powi bitlen a" .
qed

lemma ilog2_bounds:
  assumes "x \<noteq> 0"
  shows "2 powi (ilog2 x) \<le> \<bar>x\<bar>" and "\<bar>x\<bar> < 2 powi (ilog2 x + 1)"
proof -
  obtain a b where q: "quotient_of \<bar>x\<bar> = (a, b)" by (cases "quotient_of \<bar>x\<bar>")
  have b: "0 < b" using q by (rule quotient_of_denom_pos)
  have x: "\<bar>x\<bar> = of_int a / of_int b" using q by (rule quotient_of_div)
  have "0 < \<bar>x\<bar>" using assms by simp
  then have a: "0 < a" using x b by (simp add: zero_less_divide_iff)
  define d where "d = bitlen a - bitlen b"
  have bp: "0 < (of_int b :: rat)" using b by simp
  have up: "\<bar>x\<bar> < 2 powi (d + 1)"
  proof -
    have "of_int a < (2::rat) powi bitlen a" using a by (rule bitlen_powi_bounds)
    also have "\<dots> = 2 powi (d + 1) * 2 powi (bitlen b - 1)"
      by (simp add: d_def two_powi_add [symmetric])
    also have "\<dots> \<le> 2 powi (d + 1) * of_int b"
      using bitlen_powi_bounds(1) [OF b] two_powi_pos [of "d + 1"]
      by (intro mult_left_mono) simp_all
    finally show ?thesis using bp by (simp add: x pos_divide_less_eq)
  qed
  have low: "2 powi (d - 1) \<le> \<bar>x\<bar>"
  proof -
    have "2 powi (d - 1) * of_int b \<le> 2 powi (d - 1) * (2::rat) powi bitlen b"
      using bitlen_powi_bounds(2) [OF b] two_powi_pos [of "d - 1"]
      by (intro mult_left_mono) simp_all
    also have "\<dots> = 2 powi (bitlen a - 1)"
      by (simp add: d_def two_powi_add [symmetric])
    also have "\<dots> \<le> of_int a" using a by (rule bitlen_powi_bounds)
    finally show ?thesis using bp by (simp add: x pos_le_divide_eq)
  qed
  have il: "ilog2 x = (if 2 powi d \<le> \<bar>x\<bar> then d else d - 1)"
    by (simp add: ilog2_def q d_def Let_def)
  show "2 powi (ilog2 x) \<le> \<bar>x\<bar>" using low by (simp add: il)
  show "\<bar>x\<bar> < 2 powi (ilog2 x + 1)" using up by (auto simp: il not_le)
qed

lemma ilog2_unique:
  assumes "x \<noteq> 0" "2 powi e \<le> \<bar>x\<bar>" "\<bar>x\<bar> < 2 powi (e + 1)"
  shows "ilog2 x = e"
proof -
  have "(2::rat) powi (ilog2 x) < 2 powi (e + 1)"
    using ilog2_bounds(1) [OF assms(1)] assms(3) by simp
  then have "ilog2 x < e + 1" by (rule two_powi_less_cancel)
  moreover have "(2::rat) powi e < 2 powi (ilog2 x + 1)"
    using ilog2_bounds(2) [OF assms(1)] assms(2) by simp
  then have "e < ilog2 x + 1" by (rule two_powi_less_cancel)
  ultimately show ?thesis by simp
qed

lemma round_half_even_error: "\<bar>of_int (round_half_even x) - x\<bar> \<le> 1 / 2"
proof -
  have "of_int \<lfloor>x\<rfloor> \<le> x" "x < of_int \<lfloor>x\<rfloor> + 1" by linarith+
  then show ?thesis by (auto simp: round_half_even_def Let_def)
qed

lemma round_half_even_of_int: "round_half_even (of_int k) = k"
  by (simp add: round_half_even_def)

lemma to_double_normal:
  assumes x: "x \<noteq> 0" and lo: "- 1022 \<le> ilog2 x" and hi: "ilog2 x \<le> 1022"
  shows "\<exists>y. to_double x = Num y \<and> \<bar>y - x\<bar> \<le> 2 powi (ilog2 x - 53)"
proof -
  define e where "e = ilog2 x"
  define u :: rat where "u = 2 powi (e - 52)"
  define m where "m = round_half_even (x / u)"
  have u_pos: "0 < u" by (simp add: u_def two_powi_pos)
  have mx: "max (e - 52) (- 1074) = e - 52" using lo by (simp add: e_def)
  have "\<bar>of_int m - x / u\<bar> \<le> 1 / 2" unfolding m_def by (rule round_half_even_error)
  then have "\<bar>of_int m - x / u\<bar> * u \<le> 1 / 2 * u"
    using u_pos by (intro mult_right_mono) simp_all
  moreover have "\<bar>of_int m - x / u\<bar> * u = \<bar>of_int m * u - x\<bar>"
  proof -
    have "\<bar>of_int m - x / u\<bar> * u = \<bar>(of_int m - x / u) * u\<bar>"
      using u_pos by (simp add: abs_mult)
    also have "(of_int m - x / u) * u = of_int m * u - x"
      using u_pos by (simp add: field_simps)
    finally show ?thesis .
  qed
  moreover have "1 / 2 * u = 2 powi (e - 53)"
    unfolding u_def using two_powi_add [of "e - 53" 1] by simp
  ultimately have err: "\<bar>of_int m * u - x\<bar> \<le> 2 powi (e - 53)" by simp
  have "\<bar>of_int m * u\<bar> \<le> \<bar>x\<bar> + 2 powi (e - 53)" using err by linarith
  also have "\<dots> < 2 powi (e + 1) + 2 powi (e - 53)"
    using ilog2_bounds(2) [OF x] by (simp add: e_def)
  also have "\<dots> \<le> 2 powi 1023 + 2 powi 1023"
    using hi by (intro add_mono two_powi_mono) (simp_all add: e_def)
  also have "\<dots> = (2::rat) powi 1024"
    using two_powi_add [of 1023 1] by simp
  finally have "\<not> 2 powi 1024 \<le> \<bar>of_int m * u\<bar>" by simp
  then have "to_double x = Num (of_int m * u)"
    using x mx by (simp add: to_double_def Let_def e_def [symmetric] u_def [symmetric]
        m_def [symmetric])
  then show ?thesis using err by (auto simp: e_def)
qed

lemma to_double_rel_error:
  assumes x: "x \<noteq> 0" and lo: "2 powi (- 1022) \<le> \<bar>x\<bar>" and hi: "\<bar>x\<bar> < 2 powi 1023"
  shows "\<exists>y. to_double x = Num y \<and> \<bar>y - x\<bar> \<le> \<bar>x\<bar> / 2 ^ 53"
proof -
  have "(2::rat) powi (- 1022) < 2 powi (ilog2 x + 1)"
    using lo ilog2_bounds(2) [OF x] by simp
  then have "- 1022 < ilog2 x + 1" by (rule two_powi_less_cancel)
  then have l: "- 1022 \<le> ilog2 x" by simp
  have "(2::rat) powi (ilog2 x) < 2 powi 1023"
    using hi ilog2_bounds(1) [OF x] by simp
  then have "ilog2 x < 1023" by (rule two_powi_less_cancel)
  then have h: "ilog2 x \<le> 1022" by simp
  obtain y where y: "to_double x = Num y" "\<bar>y - x\<bar> \<le> 2 powi (ilog2 x - 53)"
    using to_double_normal [OF x l h] by blast
  have "(2::rat) powi (ilog2 x - 53) = 2 powi (ilog2 x) / 2 ^ 53"
    by (simp add: two_powi_diff)
  also have "\<dots> \<le> \<bar>x\<bar> / 2 ^ 53"
    using ilog2_bounds(1) [OF x] by (intro divide_right_mono) simp_all
  finally show ?thesis using y by auto
qed

lemma to_double_exact:
  assumes x: "x \<noteq> 0" and k: "x / 2 powi (max (ilog2 x - 52) (- 1074)) = of_int k"
    and hi: "\<bar>x\<bar> < 2 powi 1024"
  shows "to_double x = Num x"
proof -
  define u :: rat where "u = 2 powi (max (ilog2 x - 52) (- 1074))"
  have u_pos: "0 < u" by (simp add: u_def two_powi_pos)
  have "round_half_even (x / u) = k" using k by (simp add: u_def round_half_even_of_int)
  moreover have "of_int k * u = x" using k u_pos by (simp add: u_def [symmetric] field_simps)
  ultimately show ?thesis
    using x hi by (simp add: to_double_def Let_def u_def [symmetric] not_le)
qed

lemma to_double_of_int:
  assumes "\<bar>n\<bar> \<le> 2 ^ 53"
  shows "to_double (of_int n) = Num (of_int n)"
proof (cases "n = 0")
  case True
  then show ?thesis by (simp add: to_double_def)
next
  case False
  define x :: rat where "x = of_int n"
  define e where "e = ilog2 x"
  have x: "x \<noteq> 0" using False by (simp add: x_def)
  have ax: "\<bar>x\<bar> = of_int \<bar>n\<bar>" by (simp add: x_def)
  have "1 \<le> \<bar>n\<bar>" using False by simp
  then have "(1::rat) \<le> of_int \<bar>n\<bar>" by (simp only: of_int_1_le_iff)
  then have "(2::rat) powi 0 < 2 powi (e + 1)"
    using ilog2_bounds(2) [OF x] by (simp add: ax e_def)
  then have "0 < e + 1" by (rule two_powi_less_cancel)
  then have e0: "0 \<le> e" by simp
  have le53: "\<bar>x\<bar> \<le> 2 ^ 53"
  proof -
    have "(of_int \<bar>n\<bar> :: rat) \<le> of_int (2 ^ 53)" using assms by (simp only: of_int_le_iff)
    then show ?thesis by (simp add: ax)
  qed
  then have "(2::rat) powi e < 2 powi 54"
    using ilog2_bounds(1) [OF x] by (simp add: e_def)
  then have "e < 54" by (rule two_powi_less_cancel)
  have hi: "\<bar>x\<bar> < 2 powi 1024"
  proof -
    have "\<bar>x\<bar> \<le> 2 powi 53" using le53 by simp
    also have "\<dots> < (2::rat) powi 1024" by (intro power_int_strict_increasing) simp_all
    finally show ?thesis .
  qed
  have mx: "max (e - 52) (- 1074) = e - 52" using e0 by simp
  have "\<exists>k. x / 2 powi (e - 52) = of_int k"
  proof (cases "e \<le> 52")
    case True
    have "x / 2 powi (e - 52) = x * 2 powi (52 - e)"
      using power_int_minus [of "2::rat" "e - 52"] by (simp add: field_simps)
    also have "\<dots> = x * 2 ^ nat (52 - e)"
      using True by (simp add: power_int_nonneg_exp)
    also have "\<dots> = of_int (n * 2 ^ nat (52 - e))" by (simp add: x_def)
    finally show ?thesis by blast
  next
    case False
    then have e: "e = 53" using \<open>e < 54\<close> by simp
    have "(2::rat) ^ 53 \<le> \<bar>x\<bar>" using ilog2_bounds(1) [OF x] by (simp add: e_def [symmetric] e)
    then have "\<bar>x\<bar> = 2 ^ 53" using le53 by simp
    then have "x = 2 ^ 53 \<or> x = - (2 ^ 53)" by (auto simp: abs_if split: if_splits)
    then have "x / 2 powi (e - 52) = of_int (2 ^ 52)
        \<or> x / 2 powi (e - 52) = of_int (- (2 ^ 52))"
      unfolding e by auto
    then show ?thesis by blast
  qed
  then obtain k where "x / 2 powi (max (ilog2 x - 52) (- 1074)) = of_int k"
    using mx by (auto simp: e_def)
  then have "to_double x = Num x" using x hi by (intro to_double_exact)
  then show ?thesis by (simp add: x_def)
qed

lemma small_normal: "(2::rat) powi (- 1022) \<le> 1 / 2 ^ 53"
proof -
  have "(2::rat) powi (- 1022) \<le> 2 powi (- 53)" by (rule two_powi_mono) simp
  also have "\<dots> = 1 / 2 ^ 53"
    using power_int_minus [of "2::rat" 53] by (simp add: field_simps)
  finally show ?thesis .
qed

lemma big_normal: "(2::rat) ^ 54 < 2 powi 1023"
proof -
  have "(2::rat) powi 54 < 2 powi 1023" by (intro power_int_strict_increasing) simp_all
  then show ?thesis by simp
qed

lemma floor_near:
  fixes y :: rat
  assumes "\<bar>y - of_int c\<bar> < 1 / 2"
  shows "\<lfloor>y + 1 / 2\<rfloor> = c"
proof (rule floor_unique)
  show "of_int c \<le> y + 1 / 2" using assms by linarith
  show "y + 1 / 2 < of_int c + 1" using assms by linarith
qed


lemma round_half_even_nearest:
  assumes "of_int k - 1 / 2 < x" "x < of_int k + 1 / 2"
  shows "round_half_even x = k"
proof -
  have f: "of_int \<lfloor>x\<rfloor> \<le> x" "x < of_int \<lfloor>x\<rfloor> + 1" by linarith+
  have "(of_int k :: rat) < of_int \<lfloor>x\<rfloor> + 3 / 2" "(of_int \<lfloor>x\<rfloor> :: rat) < of_int k + 1 / 2"
    using assms f by linarith+
  then have "(of_int k :: rat) < of_int (\<lfloor>x\<rfloor> + 2)" "(of_int \<lfloor>x\<rfloor> :: rat) < of_int (k + 1)"
    by simp_all
  then have "k < \<lfloor>x\<rfloor> + 2" "\<lfloor>x\<rfloor> < k + 1" by (simp_all only: of_int_less_iff)
  then consider "\<lfloor>x\<rfloor> = k" | "\<lfloor>x\<rfloor> = k - 1" by linarith
  then show ?thesis
  proof cases
    case 1
    then show ?thesis using assms by (simp add: round_half_even_def Let_def)
  next
    case 2
    then have "1 / 2 < x - of_int \<lfloor>x\<rfloor>" using assms by simp
    then show ?thesis using 2 by (simp add: round_half_even_def Let_def)
  qed
qed

lemma to_double_eval:
  assumes x: "x \<noteq> 0" and e: "2 powi e \<le> \<bar>x\<bar>" "\<bar>x\<bar> < 2 powi (e + 1)"
    and normal: "- 1022 \<le> e" "e \<le> 1022"
    and k: "of_int k - 1 / 2 < x / 2 powi (e - 52)" "x / 2 powi (e - 52) < of_int k + 1 / 2"
  shows "to_double x = Num (of_int k * 2 powi (e - 52))"
proof -
  have il: "ilog2 x = e" using x e by (rule ilog2_unique)
  obtain y where y: "to_double x = Num y"
    using to_double_normal [OF x] normal by (auto simp: il)
  have "round_half_even (x / 2 powi (e - 52)) = k" using k by (rule round_half_even_nearest)
  then show ?thesis
    using y x normal by (auto simp: to_double_def Let_def il split: if_splits)
qed


section \<open>Cents and dollars\<close>

lemma centsToDollars_large:
  "centsToDollars (Num 7036874417766401) = Num (4503599627370497 / 64)"
  using to_double_eval [of "7036874417766401 / 100" 46 4503599627370497]
  by (simp add: centsToDollars_def)

lemma dollarsToCents_large:
  "dollarsToCents (Num (4503599627370497 / 64)) = Num 7036874417766402"
proof -
  have "to_double (4503599627370497 / 64 * 100) = Num 7036874417766402"
    using to_double_eval [of "4503599627370497 / 64 * 100" 52 7036874417766402] by simp
  moreover have "\<lfloor>(7036874417766402 :: rat) + 1 / 2\<rfloor> = 7036874417766402"
    by (rule floor_near) simp
  ultimately show ?thesis by (simp add: dollarsToCents_def)
qed

lemma centsToDollars_1234:
  "centsToDollars (Num 1234) = Num (3473401212609495 / 281474976710656)"
  using to_double_eval [of "1234 / 100" 3 6946802425218990]
  by (simp add: centsToDollars_def)

text \<open>
  Claim C8, as stated: the round trip through dollars is the identity for every integer
  amount of cents in the safe integer range. The amount 7036874417766401 is below \<open>2 ^ 53\<close>;
  its hundredth lies between \<open>2 ^ 46\<close> and \<open>2 ^ 47\<close>, where binary64 values are
  \<open>1 / 64\<close> apart, and is rounded up by more than half a cent; the product with 100 is then
  rounded to the next integer.
\<close>

theorem cents_round_trip_counterexample:
  "dollarsToCents (centsToDollars (Num 7036874417766401)) = Num 7036874417766402
   \<and> (7036874417766401 :: int) < 2 ^ 53"
  by (simp add: centsToDollars_large dollarsToCents_large)

text \<open>
  Claim C8, amended: for every integer amount of cents \<open>c\<close> of magnitude below \<open>2 ^ 51\<close>,
  \<open>dollarsToCents (centsToDollars c) = c\<close>: each of the two roundings has a relative error
  of at most \<open>2 ^ (- 53)\<close>, so the product is less than half a cent away from \<open>c\<close> and
  \<^verbatim>\<open>Math.round\<close> gives \<open>c\<close> back.
\<close>


theorem cents_round_trip:
  assumes c: "\<bar>c\<bar> < 2 ^ 51"
  shows "dollarsToCents (centsToDollars (Num (of_int c))) = Num (of_int c)"
proof (cases "c = 0")
  case True
  have "\<lfloor>(0::rat) + 1 / 2\<rfloor> = 0" by (rule floor_near) simp
  then show ?thesis using True
    by (simp add: dollarsToCents_def centsToDollars_def to_double_def)
next
  case False
  define C :: rat where "C = \<bar>of_int c\<bar>"
  define x1 :: rat where "x1 = of_int c / 100"
  have C1: "1 \<le> C"
  proof -
    have "1 \<le> \<bar>c\<bar>" using False by simp
    then have "(1::rat) \<le> of_int \<bar>c\<bar>" by (simp only: of_int_1_le_iff)
    then show ?thesis by (simp add: C_def)
  qed
  have C2: "C \<le> 2 ^ 51 - 1"
  proof -
    have "\<bar>c\<bar> \<le> 2 ^ 51 - 1" using c by simp
    then have "(of_int \<bar>c\<bar> :: rat) \<le> of_int (2 ^ 51 - 1)" by (simp only: of_int_le_iff)
    then show ?thesis by (simp add: C_def)
  qed
  have ax1: "\<bar>x1\<bar> = C / 100" by (simp add: x1_def C_def)
  have x1: "x1 \<noteq> 0" using False by (simp add: x1_def)
  have "2 powi (- 1022) \<le> \<bar>x1\<bar>"
    using small_normal C1 by (simp add: ax1)
  moreover have "\<bar>x1\<bar> < 2 powi 1023"
    using big_normal C2 by (simp add: ax1)
  ultimately obtain d where d: "to_double x1 = Num d" "\<bar>d - x1\<bar> \<le> \<bar>x1\<bar> / 2 ^ 53"
    using to_double_rel_error [OF x1] by blast
  define x2 where "x2 = d * 100"
  have eq: "x2 - of_int c = 100 * (d - x1)"
    by (simp add: x2_def x1_def algebra_simps)
  have "\<bar>x2 - of_int c\<bar> = \<bar>100 * (d - x1)\<bar>" by (simp only: eq)
  also have "\<dots> = \<bar>100\<bar> * \<bar>d - x1\<bar>" by (rule abs_mult)
  finally have "\<bar>x2 - of_int c\<bar> = 100 * \<bar>d - x1\<bar>" by simp
  then have e2: "\<bar>x2 - of_int c\<bar> \<le> C / 2 ^ 53"
    using d(2) by (simp add: ax1)
  define E where "E = C / 2 ^ 53"
  have E: "0 \<le> E" "E \<le> 1 / 4" "C + E \<le> 2 ^ 51"
    using C1 C2 by (simp_all add: E_def)
  have e2': "\<bar>x2 - of_int c\<bar> \<le> E" using e2 by (simp add: E_def)
  have lo2: "C - E \<le> \<bar>x2\<bar>" and hi2: "\<bar>x2\<bar> \<le> C + E"
    using e2' unfolding C_def by linarith+
  have x2: "x2 \<noteq> 0" using lo2 C1 E by auto
  have "1 / 2 ^ 53 \<le> \<bar>x2\<bar>" using lo2 C1 E by simp
  then have "2 powi (- 1022) \<le> \<bar>x2\<bar>"
    using small_normal by linarith
  moreover have "\<bar>x2\<bar> < 2 powi 1023"
    using big_normal hi2 E by simp
  ultimately obtain y where y: "to_double x2 = Num y" "\<bar>y - x2\<bar> \<le> \<bar>x2\<bar> / 2 ^ 53"
    using to_double_rel_error [OF x2] by blast
  have "\<bar>x2\<bar> / 2 ^ 53 \<le> 2 ^ 51 / 2 ^ 53"
    using hi2 E by (intro divide_right_mono) simp_all
  then have "\<bar>y - x2\<bar> \<le> 1 / 4" using y(2) by simp
  then have "\<bar>y - of_int c\<bar> \<le> 1 / 4 + E" using e2' by linarith
  moreover have "E < 1 / 4" using C2 by (simp add: E_def)
  ultimately have "\<bar>y - of_int c\<bar> < 1 / 2" by linarith
  then have "\<lfloor>y + 1 / 2\<rfloor> = c" by (rule floor_near)
  moreover have "centsToDollars (Num (of_int c)) = Num d"
    using d(1) by (simp add: centsToDollars_def x1_def)
  moreover have "dollarsToCents (Num d) = Math_round (Num y)"
    using y(1) by (simp add: dollarsToCents_def x2_def)
  ultimately show ?thesis by simp
qed


theorem cents_round_trip_witness:
  "\<bar>1234 :: int\<bar> < 2 ^ 51
   \<and> centsToDollars (Num 1234) = Num (3473401212609495 / 281474976710656)
   \<and> dollarsToCents (centsToDollars (Num 1234)) = Num 1234"
  using cents_round_trip [of 1234] by (simp add: centsToDollars_1234)

section \<open>Percentage change\<close>


lemma to_double_not_NaN: "to_double x \<noteq> NaN"
  by (simp add: to_double_def Let_def)

lemma calculatePercentageChange_finite_not_NaN:
  assumes "b \<noteq> 0"
  shows "calculatePercentageChange (Num a) (Num b)
      = js_div (js_sub (Num a) (Num b)) (Num \<bar>b\<bar>)"
    and "calculatePercentageChange (Num a) (Num b) \<noteq> NaN"
proof -
  show eq: "calculatePercentageChange (Num a) (Num b)
      = js_div (js_sub (Num a) (Num b)) (Num \<bar>b\<bar>)"
    using assms by (simp add: calculatePercentageChange_def js_strict_eq_def)
  have "js_div (to_double (a - b)) (Num \<bar>b\<bar>) \<noteq> NaN"
    using assms to_double_not_NaN [of "a - b"]
    by (cases "to_double (a - b)") (simp_all add: to_double_not_NaN)
  then show "calculatePercentageChange (Num a) (Num b) \<noteq> NaN"
    by (simp add: eq)
qed

lemma calculatePercentageChange_integers:
  fixes c p :: int
  assumes p: "p \<noteq> 0" and cp: "\<bar>c - p\<bar> \<le> 2 ^ 53" and pb: "\<bar>p\<bar> \<le> 2 ^ 53"
  shows "calculatePercentageChange (Num (of_int c)) (Num (of_int p))
      = to_double (of_int (c - p) / of_int \<bar>p\<bar>)"
    and "\<exists>y. calculatePercentageChange (Num (of_int c)) (Num (of_int p)) = Num y
        \<and> \<bar>y - of_int (c - p) / of_int \<bar>p\<bar>\<bar> \<le> \<bar>of_int (c - p) / of_int \<bar>p\<bar>\<bar> / 2 ^ 53"
proof -
  define q :: rat where "q = of_int (c - p) / of_int \<bar>p\<bar>"
  have "js_sub (Num (of_int c)) (Num (of_int p)) = to_double (of_int (c - p))" by simp
  also have "\<dots> = Num (of_int (c - p))" using cp by (rule to_double_of_int)
  finally have sub: "js_sub (Num (of_int c)) (Num (of_int p)) = Num (of_int (c - p))" .
  have "calculatePercentageChange (Num (of_int c)) (Num (of_int p))
      = js_div (Num (of_int (c - p))) (Num \<bar>of_int p\<bar>)"
    using p sub by (simp add: calculatePercentageChange_def js_strict_eq_def)
  then show eq: "calculatePercentageChange (Num (of_int c)) (Num (of_int p))
      = to_double (of_int (c - p) / of_int \<bar>p\<bar>)"
    using p by simp
  show "\<exists>y. calculatePercentageChange (Num (of_int c)) (Num (of_int p)) = Num y
        \<and> \<bar>y - of_int (c - p) / of_int \<bar>p\<bar>\<bar> \<le> \<bar>of_int (c - p) / of_int \<bar>p\<bar>\<bar> / 2 ^ 53"
  proof (cases "c = p")
    case True
    then show ?thesis unfolding eq by (simp add: to_double_def)
  next
    case False
    define N :: rat where "N = of_int \<bar>c - p\<bar>"
    define P :: rat where "P = of_int \<bar>p\<bar>"
    have N1: "1 \<le> N"
    proof -
      have "1 \<le> \<bar>c - p\<bar>" using False by simp
      then show ?thesis unfolding N_def by (simp only: of_int_1_le_iff)
    qed
    have P1: "1 \<le> P"
    proof -
      have "1 \<le> \<bar>p\<bar>" using p by simp
      then show ?thesis unfolding P_def by (simp only: of_int_1_le_iff)
    qed
    have N2: "N \<le> 2 ^ 53"
    proof -
      have "(of_int \<bar>c - p\<bar> :: rat) \<le> of_int (2 ^ 53)" using cp by (simp only: of_int_le_iff)
      then show ?thesis by (simp add: N_def)
    qed
    have P2: "P \<le> 2 ^ 53"
    proof -
      have "(of_int \<bar>p\<bar> :: rat) \<le> of_int (2 ^ 53)" using pb by (simp only: of_int_le_iff)
      then show ?thesis by (simp add: P_def)
    qed
    have aq: "\<bar>q\<bar> = N / P" by (simp add: q_def N_def P_def)
    have q0: "q \<noteq> 0" using False p by (simp add: q_def)
    have "1 / 2 ^ 53 \<le> N / P"
      using N1 P1 P2 by (simp add: field_simps)
    then have lo: "2 powi (- 1022) \<le> \<bar>q\<bar>" using small_normal unfolding aq by linarith
    have "N / P \<le> N" using N1 P1 by (simp add: field_simps)
    then have "\<bar>q\<bar> \<le> 2 ^ 53" using N2 unfolding aq by linarith
    moreover have "(2::rat) ^ 53 \<le> 2 ^ 54" by simp
    ultimately have hi: "\<bar>q\<bar> < 2 powi 1023" using big_normal by linarith
    show ?thesis unfolding eq using to_double_rel_error [OF q0 lo hi] by (simp add: q_def)
  qed
qed


lemma to_double_fifth: "to_double (1 / 5) = Num (3602879701896397 / 18014398509481984)"
  using to_double_eval [of "1 / 5" "- 3" 7205759403792794] by simp

lemma to_double_minus_fifth:
  "to_double (- (1 / 5)) = Num (- (3602879701896397 / 18014398509481984))"
  using to_double_eval [of "- (1 / 5)" "- 3" "- 7205759403792794"] by simp

text \<open>
  Claim C10: \<^verbatim>\<open>calculatePercentageChange\<close> returns a value for all arguments. For
  integer amounts with \<open>previous \<noteq> 0\<close>, both and their difference of magnitude at most
  \<open>2 ^ 53\<close>, the result is the exact quotient \<open>(current - previous) / \<bar>previous\<bar>\<close> rounded
  to binary64: a finite number within a relative error of \<open>2 ^ (- 53)\<close> of the quotient.
  When \<open>previous = 0\<close> the result is 1 if \<open>current > 0\<close> and 0 otherwise, a negative current
  amount included. For all finite amounts with \<open>previous \<noteq> 0\<close> the division is by
  \<open>\<bar>previous\<bar>\<close>, which is not zero, and the result is never \<^verbatim>\<open>NaN\<close>.
\<close>


theorem calculatePercentageChange_guarded:
  fixes c p :: int
  shows
   "(p \<noteq> 0 \<and> \<bar>c\<bar> \<le> 2 ^ 53 \<and> \<bar>p\<bar> \<le> 2 ^ 53 \<and> \<bar>c - p\<bar> \<le> 2 ^ 53 \<longrightarrow>
       calculatePercentageChange (Num (of_int c)) (Num (of_int p))
         = to_double (of_int (c - p) / of_int \<bar>p\<bar>)
       \<and> (\<exists>y. calculatePercentageChange (Num (of_int c)) (Num (of_int p)) = Num y
             \<and> \<bar>y - of_int (c - p) / of_int \<bar>p\<bar>\<bar>
                 \<le> \<bar>of_int (c - p) / of_int \<bar>p\<bar>\<bar> / 2 ^ 53))
    \<and> calculatePercentageChange (Num a) (Num 0) = (if 0 < a then Num 1 else Num 0)
    \<and> (b \<noteq> 0 \<longrightarrow>
         calculatePercentageChange (Num a) (Num b)
           = js_div (js_sub (Num a) (Num b)) (Num \<bar>b\<bar>)
         \<and> calculatePercentageChange (Num a) (Num b) \<noteq> NaN)"
  using calculatePercentageChange_integers [of p c]
    calculatePercentageChange_finite_not_NaN [of b a]
  by (simp add: calculatePercentageChange_def js_strict_eq_def)


theorem calculatePercentageChange_guarded_witness:
  "calculatePercentageChange (Num 120000) (Num 100000)
     = Num (3602879701896397 / 18014398509481984)
   \<and> calculatePercentageChange (Num 80000) (Num 100000)
     = Num (- (3602879701896397 / 18014398509481984))
   \<and> calculatePercentageChange (Num 100000) (Num 0) = Num 1
   \<and> calculatePercentageChange (Num (- 2500)) (Num 0) = Num 0
   \<and> calculatePercentageChange (Num 0) (Num 0) = Num 0"
  using to_double_fifth to_double_minus_fifth
    calculatePercentageChange_guarded [of 100000 120000 100000 1]
    calculatePercentageChange_guarded [of 100000 80000 "- 2500" 1]
    calculatePercentageChange_guarded [of 100000 80000 0 1]
  by simp

end
